theory Spec2Isabelle
  imports Main "HOL-Library.Sublist"
begin

section \<open>The Go library functions the program calls\<close>

text \<open>
  A Go string is a sequence of bytes; it is modelled as a \<open>string\<close> (a list of 8-bit
  characters). The functions of this section model the standard-library calls made by
  \<open>src/proxy_checker.go\<close>; the program's own functions follow in the later sections.
\<close>

text \<open>\<open>strings.Split(s, sep)\<close> for a one-byte separator: the pieces between the
  separators, one more piece than there are separators (so the empty string gives one
  empty piece).\<close>

fun strings_Split :: "string \<Rightarrow> char \<Rightarrow> string list" where
  "strings_Split [] sep = [[]]"
| "strings_Split (c # cs) sep =
     (if c = sep then [] # strings_Split cs sep
      else (case strings_Split cs sep of
              [] \<Rightarrow> [[c]]
            | l # ls \<Rightarrow> (c # l) # ls))"

text \<open>\<open>strings.TrimSpace\<close> removes leading and trailing white space as defined by Unicode
  (\<open>unicode.IsSpace\<close>). On the bytes of a string these are the six ASCII characters
  tab, line feed, vertical tab, form feed, carriage return and space, and the UTF-8
  encodings of U+0085, U+00A0 (two bytes) and of U+1680, U+2000 to U+200A, U+2028, U+2029,
  U+202F, U+205F, U+3000 (three bytes).\<close>

definition asciiSpace :: "char \<Rightarrow> bool" where
  "asciiSpace c \<longleftrightarrow>
     c = CHR 0x09 \<or> c = CHR 0x0A \<or> c = CHR 0x0B \<or> c = CHR 0x0C \<or> c = CHR 0x0D \<or> c = CHR 0x20"

definition space2 :: "char \<Rightarrow> char \<Rightarrow> bool" where
  "space2 a b \<longleftrightarrow> a = CHR 0xC2 \<and> (b = CHR 0x85 \<or> b = CHR 0xA0)"

definition space3 :: "char \<Rightarrow> char \<Rightarrow> char \<Rightarrow> bool" where
  "space3 a b c \<longleftrightarrow>
     (a = CHR 0xE1 \<and> b = CHR 0x9A \<and> c = CHR 0x80) \<or>
     (a = CHR 0xE2 \<and> b = CHR 0x80 \<and>
        (of_char c \<in> {0x80 .. (0x8A::nat)} \<or> c = CHR 0xA8 \<or> c = CHR 0xA9 \<or> c = CHR 0xAF)) \<or>
     (a = CHR 0xE2 \<and> b = CHR 0x81 \<and> c = CHR 0x9F) \<or>
     (a = CHR 0xE3 \<and> b = CHR 0x80 \<and> c = CHR 0x80)"

text \<open>Stripping white space from the front. The second and third argument recognise a
  two-byte and a three-byte white-space character at the front of the string, so that the
  same function, run on the reversed string with the bytes of the patterns reversed, strips
  from the back.\<close>

fun trimFront :: "(char \<Rightarrow> char \<Rightarrow> bool) \<Rightarrow> (char \<Rightarrow> char \<Rightarrow> char \<Rightarrow> bool) \<Rightarrow> string \<Rightarrow> string" where
  "trimFront p2 p3 (a # b # c # s) =
     (if asciiSpace a then trimFront p2 p3 (b # c # s)
      else if p2 a b then trimFront p2 p3 (c # s)
      else if p3 a b c then trimFront p2 p3 s
      else a # b # c # s)"
| "trimFront p2 p3 [a, b] =
     (if asciiSpace a then trimFront p2 p3 [b]
      else if p2 a b then []
      else [a, b])"
| "trimFront p2 p3 [a] = (if asciiSpace a then [] else [a])"
| "trimFront p2 p3 [] = []"

definition TrimLeft :: "string \<Rightarrow> string" where
  "TrimLeft s = trimFront space2 space3 s"

definition TrimRight :: "string \<Rightarrow> string" where
  "TrimRight s = rev (trimFront (\<lambda>a b. space2 b a) (\<lambda>a b c. space3 c b a) (rev s))"

definition strings_TrimSpace :: "string \<Rightarrow> string" where
  "strings_TrimSpace s = TrimRight (TrimLeft s)"

text \<open>\<open>strings.HasPrefix\<close> and \<open>strings.Contains\<close>.\<close>

definition strings_HasPrefix :: "string \<Rightarrow> string \<Rightarrow> bool" where
  "strings_HasPrefix s p \<longleftrightarrow> prefix p s"

definition strings_Contains :: "string \<Rightarrow> string \<Rightarrow> bool" where
  "strings_Contains s substr \<longleftrightarrow> sublist substr s"

text \<open>The decimal rendering of \<open>%d\<close> in \<open>fmt.Sprintf\<close>.\<close>

definition digit_char :: "nat \<Rightarrow> char" where
  "digit_char d =
     (if d = 0 then CHR ''0'' else if d = 1 then CHR ''1'' else if d = 2 then CHR ''2''
      else if d = 3 then CHR ''3'' else if d = 4 then CHR ''4'' else if d = 5 then CHR ''5''
      else if d = 6 then CHR ''6'' else if d = 7 then CHR ''7'' else if d = 8 then CHR ''8''
      else CHR ''9'')"

fun dec_nat :: "nat \<Rightarrow> string" where
  "dec_nat n = (if n < 10 then [digit_char n] else dec_nat (n div 10) @ [digit_char (n mod 10)])"

declare dec_nat.simps [simp del]

definition dec_int :: "int \<Rightarrow> string" where
  "dec_int i = (if i < 0 then CHR ''-'' # dec_nat (nat (- i)) else dec_nat (nat i))"


section \<open>The environment of a run\<close>

text \<open>
  Everything the program obtains from outside is collected in one record, fixed for a run:
  the file system and the network as the program reads them, and the answers of the
  library calls whose code is not part of the repository.
\<close>

datatype failure = ConnectionRefused | TimedOut | TLSFailure | DNSFailure | OtherTransportError

text \<open>A response as \<open>checkProxy\<close> sees it: the bytes of the body, and the number of bytes
  the first \<open>Read\<close> of the body has available. A \<open>Read\<close> into a buffer returns at most the
  buffer's length and may return fewer bytes than the body holds (\<open>io.Reader\<close>: "if some
  data is available but not len(p) bytes, Read conventionally returns what is available
  instead of waiting for more").\<close>

record response =
  body :: string
  avail :: nat

text \<open>What \<open>fmt.Sscanf(s, "%d", &threads)\<close> returns: the number of items scanned, whether
  the error is non-nil, and the value it stored into \<open>threads\<close>, if it stored one.\<close>

record scan =
  scanned :: int
  scan_err :: bool
  stored :: "int option"

record world =
  read_file :: "string \<Rightarrow> string option"
    \<comment> \<open>\<open>ioutil.ReadFile\<close>: the contents, or \<open>None\<close> for an error\<close>
  http_fetch :: "string \<Rightarrow> string option"
    \<comment> \<open>\<open>http.Get\<close> followed by \<open>ioutil.ReadAll\<close>: the body, or \<open>None\<close> for an error of either\<close>
  sscanf_d :: "string \<Rightarrow> scan"
  url_parse_ok :: "string \<Rightarrow> bool"
    \<comment> \<open>\<open>url.Parse\<close> returned a nil error\<close>
  client_get :: "nat \<Rightarrow> string \<Rightarrow> string \<Rightarrow> int \<Rightarrow> failure + response"
    \<comment> \<open>\<open>client.Get\<close> of the probe with this number, through this proxy URL, of this target, with this timeout\<close>
  since_ns :: "nat \<Rightarrow> nat"
    \<comment> \<open>\<open>time.Since(start)\<close> of the probe with this number, in nanoseconds; Go measures it
        on the monotonic clock, so it is never negative\<close>
  open_ok :: "string \<Rightarrow> bool"
    \<comment> \<open>\<open>os.OpenFile\<close> with \<open>O_APPEND|O_CREATE|O_WRONLY\<close> returned a nil error\<close>

section \<open>Configuration and prompts\<close>

record Config =
  ProxyList :: string
  Protocol :: string
  URL :: string
  ValidStr :: string
  Timeout :: int
  Threads :: int

text \<open>\<open>promptInput\<close>, given the line the scanner read from standard input.\<close>

definition promptInput :: "string \<Rightarrow> string \<Rightarrow> string" where
  "promptInput line defaultValue =
     (let input = strings_TrimSpace line
      in if input = [] then defaultValue else input)"

definition protocols :: "string \<Rightarrow> string option" where
  "protocols = [''1'' \<mapsto> ''https'', ''2'' \<mapsto> ''socks4'', ''3'' \<mapsto> ''socks5'',
                ''4'' \<mapsto> ''socks4'', ''5'' \<mapsto> ''socks5'']"

definition promptProtocol :: "string \<Rightarrow> string \<Rightarrow> string" where
  "promptProtocol line defaultProtocol =
     (let choice = promptInput line defaultProtocol
      in case protocols choice of Some val \<Rightarrow> val | None \<Rightarrow> defaultProtocol)"


section \<open>Loading the proxy list\<close>

datatype error = ConfigLoadError | FetchError | ReadFileError | MakechanPanic

text \<open>\<open>extractProxies\<close> collects the trimmed non-empty lines as the keys of a map
  \<open>proxySet\<close> and returns the keys in the order in which Go ranges over the map, which is
  not specified. The keys are a set; a list is a possible return value when it holds every
  key exactly once.\<close>

definition proxySet :: "string \<Rightarrow> string set" where
  "proxySet content =
     fold (\<lambda>line S. let l = strings_TrimSpace line in if l \<noteq> [] then insert l S else S)
          (strings_Split content (CHR 0x0A)) {}"

definition extractProxies :: "string \<Rightarrow> string list \<Rightarrow> bool" where
  "extractProxies content uniqueProxies \<longleftrightarrow>
     distinct uniqueProxies \<and> set uniqueProxies = proxySet content"

definition fetchProxiesFromURL :: "world \<Rightarrow> string \<Rightarrow> error + string list \<Rightarrow> bool" where
  "fetchProxiesFromURL w proxyURL r \<longleftrightarrow>
     (case http_fetch w proxyURL of
        None \<Rightarrow> r = Inl FetchError
      | Some content \<Rightarrow> (case r of Inl e \<Rightarrow> False | Inr xs \<Rightarrow> extractProxies content xs))"

definition readProxies :: "world \<Rightarrow> string \<Rightarrow> error + string list \<Rightarrow> bool" where
  "readProxies w filePath r \<longleftrightarrow>
     (if strings_HasPrefix filePath ''http://'' \<or> strings_HasPrefix filePath ''https://''
      then fetchProxiesFromURL w filePath r
      else (case read_file w filePath of
              None \<Rightarrow> r = Inl ReadFileError
            | Some data \<Rightarrow> (case r of Inl e \<Rightarrow> False | Inr xs \<Rightarrow> extractProxies data xs)))"

section \<open>One probe\<close>

text \<open>The part of \<open>checkProxy\<close> before the send: every early return gives \<open>None\<close>, and a
  response whose prefix holds the marker gives the message that is sent on the channel.
  The argument \<open>i\<close> numbers the probe; the code has no such number, it selects the answers
  of the environment.\<close>

definition checkProxy_verdict ::
  "world \<Rightarrow> nat \<Rightarrow> string \<Rightarrow> string \<Rightarrow> string \<Rightarrow> string \<Rightarrow> int \<Rightarrow> string option" where
  "checkProxy_verdict w i proxy protocol targetURL validString timeout =
     (let proxyURL = protocol @ ''://'' @ proxy
      in if \<not> url_parse_ok w proxyURL then None
         else (case client_get w i proxyURL targetURL timeout of
                 Inl e \<Rightarrow> None
               | Inr resp \<Rightarrow>
                   (let responseTime = int (since_ns w i) div 1000000;
                        n = min 1024 (avail resp);
                        responseBody = take n (body resp)
                    in if strings_Contains responseBody validString
                       then Some (proxy @ ''|'' @ dec_int responseTime @ ''ms'')
                       else None)))"

section \<open>Saving a valid proxy\<close>

type_synonym fs = "string \<Rightarrow> string option"

text \<open>\<open>saveValidProxy\<close> opens the file for appending, creating it when it is missing,
  and writes the address and a line feed after what the file holds. It returns the file
  system and whether it returned an error.\<close>

definition saveValidProxy :: "world \<Rightarrow> fs \<Rightarrow> string \<Rightarrow> string \<Rightarrow> fs \<times> bool" where
  "saveValidProxy w files protocol proxy =
     (let path = ''results/'' @ protocol @ ''.valid.txt''
      in if \<not> open_ok w path then (files, True)
         else (files(path \<mapsto> (case files path of None \<Rightarrow> [] | Some old \<Rightarrow> old) @ proxy @ [CHR 0x0A]),
               False))"

text \<open>\<open>handleValidProxy\<close> splits the message at the bars and saves the first part; the
  error of \<open>saveValidProxy\<close> is dropped. \<open>parts[1]\<close> panics when the message has no bar:
  the result is \<open>None\<close> then.\<close>

definition handleValidProxy :: "world \<Rightarrow> fs \<Rightarrow> string \<Rightarrow> string \<Rightarrow> fs option" where
  "handleValidProxy w files protocol proxyWithTime =
     (case strings_Split proxyWithTime (CHR ''|'') of
        proxy # responseTime # rest \<Rightarrow> Some (fst (saveValidProxy w files protocol proxy))
      | _ \<Rightarrow> None)"


section \<open>The worker pool of \<open>main\<close>\<close>

text \<open>
  \<open>main\<close> starts the goroutine of \<open>handleExit\<close>, then one goroutine for each proxy, and
  they run interleaved. The model is a state machine: the state holds the shared variables
  and the position of every goroutine in its code, and a step is one goroutine executing
  its next statement. A statement that blocks (a send on a full channel, a receive on an
  empty one, \<open>wg.Wait\<close> on a positive counter) has no step until it can proceed.

  The positions of a probe goroutine, in the order of its code:
  \<^item> \<open>WProbe\<close>: in \<open>checkProxy\<close>, before the result of the request is known;
  \<^item> \<open>WSend m\<close>: about to execute \<open>results <- m\<close>;
  \<^item> \<open>WLoad\<close>, \<open>WStore v\<close>: the two halves of \<open>*validCount++\<close>, which is a plain read of the
    variable followed by a plain write of the value read plus one;
  \<^item> \<open>WWgDone\<close>: about to run the deferred \<open>wg.Done()\<close> of \<open>checkProxy\<close>;
  \<^item> \<open>WBarAdd\<close>: about to execute \<open>bar.Add(1)\<close>;
  \<^item> \<open>WRelease\<close>: about to run the deferred \<open><-sem\<close>;
  \<^item> \<open>WFinished\<close>: returned.
\<close>

datatype wpc = WProbe | WSend string | WLoad | WStore int | WWgDone | WBarAdd | WRelease | WFinished

datatype worker = Worker (wproxy: string) (wpc: wpc)

text \<open>The positions of \<open>main\<close> from the dispatch loop on: at the head of the loop
  (\<open>wg.Add(1)\<close> is next when a proxy is left), at \<open>sem <- struct{}{}\<close>, at the \<open>go\<close>
  statement, at \<open>wg.Wait()\<close>, at \<open>close(results)\<close>, at the final \<open>Printf\<close>, and returned.
  The positions of the goroutine of \<open>handleExit\<close>: in the \<open>range\<close> over the channel, at
  its \<open>Printf\<close>, and returned.\<close>

datatype mpc = MLoop | MAcquire | MGo | MWait | MClose | MPrint | MExit

datatype apc = ARange | APrint | AReturned

record pool =
  mpc :: mpc
  todo :: "string list"        \<comment> \<open>the proxies the loop has not dispatched yet\<close>
  workers :: "worker list"     \<comment> \<open>the probe goroutines, in the order they were started\<close>
  sem :: nat                   \<comment> \<open>the number of elements in the channel \<open>sem\<close>\<close>
  sem_cap :: nat               \<comment> \<open>its capacity\<close>
  wg :: int                    \<comment> \<open>the counter of the wait group\<close>
  results :: "string list"     \<comment> \<open>the buffer of the channel \<open>results\<close>, oldest first\<close>
  results_cap :: nat           \<comment> \<open>its capacity\<close>
  closed :: bool               \<comment> \<open>\<open>results\<close> has been closed\<close>
  validCount :: int
  bar_adds :: nat              \<comment> \<open>the number of completed calls of \<open>bar.Add(1)\<close>\<close>
  apc :: apc
  files :: fs
  total_printed :: "int option"  \<comment> \<open>the number in "Total Online proxies found", once printed\<close>
  saved_printed :: "int option"  \<comment> \<open>the number in "Saved ... valid proxies to file", once printed\<close>
  crashed :: bool              \<comment> \<open>a goroutine has panicked\<close>
  sent_log :: "string list"    \<comment> \<open>history: every message sent on \<open>results\<close>, in order\<close>

text \<open>The state in which \<open>main\<close> enters the dispatch loop: both channels made, the
  goroutine of \<open>handleExit\<close> started, nothing dispatched.\<close>

definition init_pool :: "string list \<Rightarrow> nat \<Rightarrow> pool" where
  "init_pool proxies threads =
     \<lparr> mpc = MLoop, todo = proxies, workers = [], sem = 0, sem_cap = threads, wg = 0,
       results = [], results_cap = length proxies, closed = False, validCount = 0,
       bar_adds = 0, apc = ARange, files = (\<lambda>path. None), total_printed = None,
       saved_printed = None, crashed = False, sent_log = [] \<rparr>"

text \<open>The steps of \<open>main\<close>.\<close>

definition main_step :: "pool \<Rightarrow> pool option" where
  "main_step s =
     (case mpc s of
        MLoop \<Rightarrow>
          (case todo s of
             [] \<Rightarrow> Some (s\<lparr>mpc := MWait\<rparr>)
           | proxy # rest \<Rightarrow> Some (s\<lparr>wg := wg s + 1, mpc := MAcquire\<rparr>))
      | MAcquire \<Rightarrow>
          (if sem s < sem_cap s then Some (s\<lparr>sem := sem s + 1, mpc := MGo\<rparr>) else None)
      | MGo \<Rightarrow>
          (case todo s of
             [] \<Rightarrow> None
           | proxy # rest \<Rightarrow>
               Some (s\<lparr>workers := workers s @ [Worker proxy WProbe], todo := rest, mpc := MLoop\<rparr>))
      | MWait \<Rightarrow> (if wg s = 0 then Some (s\<lparr>mpc := MClose\<rparr>) else None)
      | MClose \<Rightarrow>
          (if closed s then Some (s\<lparr>crashed := True\<rparr>)
           else Some (s\<lparr>closed := True, mpc := MPrint\<rparr>))
      | MPrint \<Rightarrow> Some (s\<lparr>total_printed := Some (validCount s), mpc := MExit\<rparr>)
      | MExit \<Rightarrow> None)"

text \<open>The steps of the probe goroutine with number \<open>i\<close>. A send on a closed channel and a
  wait-group counter that would become negative panic.\<close>

definition set_wpc :: "pool \<Rightarrow> nat \<Rightarrow> wpc \<Rightarrow> pool" where
  "set_wpc s i pc = s\<lparr>workers := (workers s)[i := Worker (wproxy (workers s ! i)) pc]\<rparr>"

definition worker_step :: "world \<Rightarrow> Config \<Rightarrow> string \<Rightarrow> pool \<Rightarrow> nat \<Rightarrow> pool option" where
  "worker_step w config protocol s i =
     (if length (workers s) \<le> i then None
      else (case wpc (workers s ! i) of
        WProbe \<Rightarrow>
          (case checkProxy_verdict w i (wproxy (workers s ! i)) protocol
                  (URL config) (ValidStr config) (Timeout config) of
             None \<Rightarrow> Some (set_wpc s i WWgDone)
           | Some m \<Rightarrow> Some (set_wpc s i (WSend m)))
      | WSend m \<Rightarrow>
          (if closed s then Some (s\<lparr>crashed := True\<rparr>)
           else if length (results s) < results_cap s
           then Some (set_wpc (s\<lparr>results := results s @ [m], sent_log := sent_log s @ [m]\<rparr>) i WLoad)
           else None)
      | WLoad \<Rightarrow> Some (set_wpc s i (WStore (validCount s)))
      | WStore v \<Rightarrow> Some (set_wpc (s\<lparr>validCount := v + 1\<rparr>) i WWgDone)
      | WWgDone \<Rightarrow>
          (if wg s - 1 < 0 then Some (s\<lparr>crashed := True\<rparr>)
           else Some (set_wpc (s\<lparr>wg := wg s - 1\<rparr>) i WBarAdd))
      | WBarAdd \<Rightarrow> Some (set_wpc (s\<lparr>bar_adds := bar_adds s + 1\<rparr>) i WRelease)
      | WRelease \<Rightarrow>
          (if 0 < sem s then Some (set_wpc (s\<lparr>sem := sem s - 1\<rparr>) i WFinished) else None)
      | WFinished \<Rightarrow> None))"

text \<open>The steps of the goroutine of \<open>handleExit\<close>: it receives from \<open>results\<close> and handles
  the message with the protocol \<open>"socks5"\<close>, as the code has it; when the channel is closed
  and empty it prints \<open>validCount\<close>.\<close>

definition handleExit_step :: "world \<Rightarrow> pool \<Rightarrow> pool option" where
  "handleExit_step w s =
     (case apc s of
        ARange \<Rightarrow>
          (case results s of
             proxy # rest \<Rightarrow>
               (case handleValidProxy w (files s) ''socks5'' proxy of
                  None \<Rightarrow> Some (s\<lparr>results := rest, crashed := True\<rparr>)
                | Some files' \<Rightarrow> Some (s\<lparr>results := rest, files := files'\<rparr>))
           | [] \<Rightarrow> (if closed s then Some (s\<lparr>apc := APrint\<rparr>) else None))
      | APrint \<Rightarrow> Some (s\<lparr>saved_printed := Some (validCount s), apc := AReturned\<rparr>)
      | AReturned \<Rightarrow> None)"

text \<open>A step of the program: the scheduler picks a goroutine. When \<open>main\<close> has returned or
  a goroutine has panicked the process is over and nothing steps.\<close>

datatype actor = MainG | ProbeG nat | ExitG

definition step :: "world \<Rightarrow> Config \<Rightarrow> string \<Rightarrow> pool \<Rightarrow> actor \<Rightarrow> pool option" where
  "step w config protocol s a =
     (if crashed s \<or> mpc s = MExit then None
      else (case a of
              MainG \<Rightarrow> main_step s
            | ProbeG i \<Rightarrow> worker_step w config protocol s i
            | ExitG \<Rightarrow> handleExit_step w s))"

text \<open>An execution is a schedule, the list of the goroutines that step, in order; \<open>run\<close>
  gives the state it ends in, and \<open>None\<close> when the schedule asks a goroutine to step that
  cannot.\<close>

fun run :: "world \<Rightarrow> Config \<Rightarrow> string \<Rightarrow> pool \<Rightarrow> actor list \<Rightarrow> pool option" where
  "run w config protocol s [] = Some s"
| "run w config protocol s (a # sched) =
     (case step w config protocol s a of
        None \<Rightarrow> None
      | Some s' \<Rightarrow> run w config protocol s' sched)"


definition main_proxyFile :: "Config \<Rightarrow> string \<Rightarrow> string" where
  "main_proxyFile config line1 = promptInput line1 (ProxyList config)"

definition main_protocol :: "Config \<Rightarrow> string \<Rightarrow> string" where
  "main_protocol config line2 = promptProtocol line2 (Protocol config)"


section \<open>Notions used in the statements\<close>

text \<open>The loaded list as the specification describes it: split the content on line
  breaks, trim white space, discard empty lines, deduplicate.\<close>

definition spec_load :: "string \<Rightarrow> string list" where
  "spec_load content =
     remdups (filter (\<lambda>l. l \<noteq> []) (map strings_TrimSpace (strings_Split content (CHR 0x0A))))"

text \<open>Counting the probe goroutines whose position has a property.\<close>

definition count_pc :: "(wpc \<Rightarrow> bool) \<Rightarrow> worker list \<Rightarrow> nat" where
  "count_pc P ws = length (filter (\<lambda>x. P (wpc x)) ws)"

text \<open>A probe goroutine holds its admission slot from its start until it has received
  from \<open>sem\<close>; it is inside \<open>checkProxy\<close> until \<open>wg.Done()\<close> has run; it is past the send when
  it is neither before the request's result nor at the send; its progress is accounted
  once \<open>bar.Add(1)\<close> has returned.\<close>

definition holds_slot :: "wpc \<Rightarrow> bool" where
  "holds_slot pc \<longleftrightarrow> pc \<noteq> WFinished"

definition in_checkProxy :: "wpc \<Rightarrow> bool" where
  "in_checkProxy pc \<longleftrightarrow>
     (case pc of WBarAdd \<Rightarrow> False | WRelease \<Rightarrow> False | WFinished \<Rightarrow> False | _ \<Rightarrow> True)"

definition after_send :: "wpc \<Rightarrow> bool" where
  "after_send pc \<longleftrightarrow> (case pc of WProbe \<Rightarrow> False | WSend m \<Rightarrow> False | _ \<Rightarrow> True)"

definition accounted :: "wpc \<Rightarrow> bool" where
  "accounted pc \<longleftrightarrow> pc = WRelease \<or> pc = WFinished"

text \<open>The verdict of the probe goroutine with number \<open>i\<close> of a state.\<close>

definition verdict_of :: "world \<Rightarrow> Config \<Rightarrow> string \<Rightarrow> pool \<Rightarrow> nat \<Rightarrow> string option" where
  "verdict_of w config protocol s i =
     checkProxy_verdict w i (wproxy (workers s ! i)) protocol
       (URL config) (ValidStr config) (Timeout config)"

text \<open>The invariant of the admission gate: the slots taken are those of the goroutines
  that hold one, and the one \<open>main\<close> has taken for the goroutine it is about to start;
  they are never more than the capacity; the calls of \<open>bar.Add\<close> are those of the
  goroutines that are past it.\<close>

definition gate_inv :: "pool \<Rightarrow> bool" where
  "gate_inv s \<longleftrightarrow>
     sem s = count_pc holds_slot (workers s) + (if mpc s = MGo then 1 else 0) \<and>
     sem s \<le> sem_cap s \<and>
     bar_adds s = count_pc accounted (workers s)"

text \<open>The invariant of a recorded result: a goroutine at the send holds its verdict's
  message, and a goroutine past the send whose verdict is a message has sent it.\<close>

definition recorded :: "world \<Rightarrow> Config \<Rightarrow> string \<Rightarrow> pool \<Rightarrow> nat \<Rightarrow> bool" where
  "recorded w config protocol s i \<longleftrightarrow>
     (case wpc (workers s ! i) of
        WProbe \<Rightarrow> True
      | WSend m \<Rightarrow> verdict_of w config protocol s i = Some m
      | _ \<Rightarrow> (case verdict_of w config protocol s i of
                None \<Rightarrow> True
              | Some m \<Rightarrow> m \<in> set (sent_log s)))"

definition record_inv :: "world \<Rightarrow> Config \<Rightarrow> string \<Rightarrow> pool \<Rightarrow> bool" where
  "record_inv w config protocol s \<longleftrightarrow>
     list_all (recorded w config protocol s) [0 ..< length (workers s)]"

text \<open>The invariant of the wait group and the close: the counter is the number of
  goroutines inside \<open>checkProxy\<close>, and one more between \<open>wg.Add(1)\<close> and the \<open>go\<close> statement;
  past \<open>wg.Wait()\<close> it is zero and every proxy has been dispatched; the channel is closed
  only past \<open>close(results)\<close>; no goroutine has panicked; every message at a send or in the
  channel has a bar.\<close>

definition has_bar :: "string \<Rightarrow> bool" where
  "has_bar m \<longleftrightarrow> CHR ''|'' \<in> set m"

definition sync_inv :: "pool \<Rightarrow> bool" where
  "sync_inv s \<longleftrightarrow>
     int (count_pc in_checkProxy (workers s))
       + (if mpc s = MAcquire \<or> mpc s = MGo then 1 else 0) = wg s \<and>
     (mpc s = MClose \<or> mpc s = MPrint \<or> mpc s = MExit \<longrightarrow> wg s = 0) \<and>
     (mpc s = MWait \<or> mpc s = MClose \<or> mpc s = MPrint \<or> mpc s = MExit \<longrightarrow> todo s = []) \<and>
     (closed s \<longrightarrow> mpc s = MPrint \<or> mpc s = MExit) \<and>
     \<not> crashed s \<and>
     list_all has_bar (results s) \<and>
     list_all (\<lambda>x. case wpc x of WSend m \<Rightarrow> has_bar m | _ \<Rightarrow> True) (workers s)"

text \<open>The invariant of the result channel: what was sent is no more than the goroutines
  past the send, what is buffered is no more than what was sent, and the capacity is the
  number of proxies, dispatched or not.\<close>

definition chan_inv :: "pool \<Rightarrow> bool" where
  "chan_inv s \<longleftrightarrow>
     length (sent_log s) \<le> count_pc after_send (workers s) \<and>
     length (results s) \<le> length (sent_log s) \<and>
     length (workers s) + length (todo s) = results_cap s"

text \<open>The invariant of a run that never dispatches: no goroutine was started, nothing
  was counted or sent, and \<open>main\<close> does not reach the \<open>go\<close> statement, either because no
  proxy is left or because the gate has no slot.\<close>

definition idle_inv :: "pool \<Rightarrow> bool" where
  "idle_inv s \<longleftrightarrow>
     workers s = [] \<and> sem s = 0 \<and>
     (todo s = [] \<or> sem_cap s = 0) \<and>
     (if todo s = [] then mpc s \<noteq> MAcquire \<and> mpc s \<noteq> MGo
      else mpc s = MLoop \<or> mpc s = MAcquire) \<and>
     validCount s = 0 \<and> sent_log s = [] \<and> results s = [] \<and>
     (total_printed s = None \<or> total_printed s = Some 0)"

section \<open>Concrete environments\<close>

text \<open>An environment in which every proxy URL parses except \<open>https://bad::addr\<close> (Go's
  \<open>url.Parse\<close> rejects it: invalid port \<open>":addr"\<close> after host), every request is answered
  after 12.3 ms with the body \<open>xxOK\<close> delivered whole by the first read, every file can be
  opened, and \<open>Sscanf\<close> reads the replies \<open>0\<close>, \<open>2\<close> and \<open>-1\<close> as these numbers and fails on
  every other reply.\<close>

definition scan_reply :: "string \<Rightarrow> scan" where
  "scan_reply r =
     (if r = ''0'' then \<lparr>scanned = 1, scan_err = False, stored = Some 0\<rparr>
      else if r = ''2'' then \<lparr>scanned = 1, scan_err = False, stored = Some 2\<rparr>
      else if r = ''-1'' then \<lparr>scanned = 1, scan_err = False, stored = Some (- 1)\<rparr>
      else \<lparr>scanned = 0, scan_err = True, stored = None\<rparr>)"

definition demo_world :: world where
  "demo_world =
     \<lparr> read_file = (\<lambda>path. if path = ''proxies.txt'' then Some [] else None),
       http_fetch = (\<lambda>url. None),
       sscanf_d = scan_reply,
       url_parse_ok = (\<lambda>u. u \<noteq> ''https://bad::addr''),
       client_get = (\<lambda>i proxyURL targetURL timeout. Inr \<lparr>body = ''xxOK'', avail = 4\<rparr>),
       since_ns = (\<lambda>i. 12345678),
       open_ok = (\<lambda>path. True) \<rparr>"

text \<open>The same environment, except that the first read of a body delivers two bytes.\<close>

definition short_read_world :: world where
  "short_read_world =
     demo_world\<lparr> client_get := (\<lambda>i proxyURL targetURL timeout. Inr \<lparr>body = ''xxOK'', avail = 2\<rparr>) \<rparr>"

text \<open>The same environment, except that every request is refused.\<close>

definition refusing_world :: world where
  "refusing_world =
     demo_world\<lparr> client_get := (\<lambda>i proxyURL targetURL timeout. Inl ConnectionRefused) \<rparr>"

definition demo_config :: Config where
  "demo_config =
     \<lparr> ProxyList = ''proxies.txt'', Protocol = ''socks5'', URL = ''https://example.com'',
       ValidStr = ''OK'', Timeout = 5000, Threads = 10 \<rparr>"

section \<open>The older variant of the program\<close>

text \<open>
  \<open>src/unnamed/part_000\<close> is an older variant of \<open>proxy_checker.go\<close>. Its \<open>Config\<close>,
  \<open>promptInput\<close>, \<open>saveValidProxy\<close>, the conversion of the thread count and the dispatch
  loop are the same code. It differs in four places: \<open>readProxies\<close> scans a file line by
  line and keeps every line; \<open>checkProxy\<close> sends the bare address and measures no time;
  the probe goroutine prints the progress after \<open>bar.Add(1)\<close>; and \<open>main\<close> starts a goroutine
  that waits and closes the channel, ranges over the channel itself (beside the goroutine
  of \<open>handleExit\<close>), and waits for a signal before it returns. What differs is modelled
  here under the source's names with the suffix \<open>_000\<close>.
\<close>

text \<open>\<open>bufio.ScanLines\<close>: the lines of the data without their line feed and without one
  trailing carriage return; what follows the last line feed is a line only when it is not
  empty. A scanner with the default buffer fails on a line of 65536 bytes or more.\<close>

definition dropCR :: "string \<Rightarrow> string" where
  "dropCR l = (if l \<noteq> [] \<and> last l = CHR 0x0D then butlast l else l)"

definition raw_lines :: "string \<Rightarrow> string list" where
  "raw_lines data =
     (let pieces = strings_Split data (CHR 0x0A)
      in if last pieces = [] then butlast pieces else pieces)"

definition MaxScanTokenSize :: nat where
  "MaxScanTokenSize = 64 * 1024"

text \<open>\<open>readProxies\<close> of the older variant. An error of \<open>os.Open\<close> or of the scanner is
  returned to \<open>main\<close>, which stops on either.\<close>

definition readProxies_000 :: "world \<Rightarrow> string \<Rightarrow> error + string list" where
  "readProxies_000 w filePath =
     (case read_file w filePath of
        None \<Rightarrow> Inl ReadFileError
      | Some data \<Rightarrow>
          if list_ex (\<lambda>l. MaxScanTokenSize \<le> length l) (raw_lines data) then Inl ReadFileError
          else Inr (filter (\<lambda>proxy. proxy \<noteq> [])
                      (map (\<lambda>l. strings_TrimSpace (dropCR l)) (raw_lines data))))"

text \<open>\<open>checkProxy\<close> of the older variant before the send: the message is the address.\<close>

definition checkProxy_verdict_000 ::
  "world \<Rightarrow> nat \<Rightarrow> string \<Rightarrow> string \<Rightarrow> string \<Rightarrow> string \<Rightarrow> int \<Rightarrow> string option" where
  "checkProxy_verdict_000 w i proxy protocol targetURL validString timeout =
     (let proxyURL = protocol @ ''://'' @ proxy
      in if \<not> url_parse_ok w proxyURL then None
         else (case client_get w i proxyURL targetURL timeout of
                 Inl e \<Rightarrow> None
               | Inr resp \<Rightarrow>
                   (let n = min 1024 (avail resp);
                        responseBody = take n (body resp)
                    in if strings_Contains responseBody validString then Some proxy else None)))"

text \<open>\<open>handleValidProxy\<close> of the older variant saves the message as it is.\<close>

definition handleValidProxy_000 :: "world \<Rightarrow> fs \<Rightarrow> string \<Rightarrow> string \<Rightarrow> fs" where
  "handleValidProxy_000 w fsys protocol proxy = fst (saveValidProxy w fsys protocol proxy)"

section \<open>The loaded proxy list\<close>

text \<open>The loop of \<open>extractProxies\<close> builds the set of the trimmed non-empty lines.\<close>

lemma fold_insert_trim:
  "fold (\<lambda>line S. let l = f line in if l \<noteq> [] then insert l S else S) ls A =
   A \<union> {l \<in> f ` set ls. l \<noteq> []}"
  by (induction ls arbitrary: A) (auto simp: Let_def)

lemma proxySet_spec_load: "proxySet content = set (spec_load content)"
  by (auto simp: proxySet_def spec_load_def fold_insert_trim)

lemma trimFront_Nil [simp]: "trimFront p2 p3 [] = []"
  by simp

lemma TrimSpace_Nil [simp]: "strings_TrimSpace [] = []"
  by (simp add: strings_TrimSpace_def TrimLeft_def TrimRight_def)

text \<open>
  The loader of \<open>proxy_checker.go\<close>: every list \<open>extractProxies\<close> can return for a content
  holds each address once and holds exactly the addresses obtained by splitting the content
  on line feeds, trimming white space and discarding the empty lines: it is the
  specification's list up to order.
\<close>

lemma extractProxies_is_spec_load:
  assumes "extractProxies content uniqueProxies"
  shows "distinct uniqueProxies \<and>
         set uniqueProxies = set (spec_load content) \<and>
         length uniqueProxies = length (spec_load content) \<and>
         (\<forall>p. p \<in> set uniqueProxies \<longleftrightarrow>
              p \<noteq> [] \<and> (\<exists>l \<in> set (strings_Split content (CHR 0x0A)). p = strings_TrimSpace l))"
proof -
  from assms have d: "distinct uniqueProxies" and e: "set uniqueProxies = set (spec_load content)"
    by (simp_all add: extractProxies_def proxySet_spec_load)
  have "distinct (spec_load content)" by (simp add: spec_load_def)
  with d e have "length uniqueProxies = length (spec_load content)"
    by (metis distinct_card)
  moreover have "\<forall>p. p \<in> set (spec_load content) \<longleftrightarrow>
              p \<noteq> [] \<and> (\<exists>l \<in> set (strings_Split content (CHR 0x0A)). p = strings_TrimSpace l)"
    by (auto simp: spec_load_def)
  ultimately show ?thesis using d e by simp
qed

lemma dup_split: "strings_Split (''1.2.3.4:8080'' @ [CHR 0x0A] @ ''1.2.3.4:8080'') (CHR 0x0A) = [''1.2.3.4:8080'', ''1.2.3.4:8080'']"
  by simp

lemma trim_addr: "strings_TrimSpace ''1.2.3.4:8080'' = ''1.2.3.4:8080''"
  by (simp add: strings_TrimSpace_def TrimLeft_def TrimRight_def asciiSpace_def space2_def space3_def)

lemma dup_extract: "extractProxies (''1.2.3.4:8080'' @ [CHR 0x0A] @ ''1.2.3.4:8080'') [''1.2.3.4:8080'']"
  unfolding extractProxies_def proxySet_def dup_split by (simp add: trim_addr)

text \<open>A content with the line \<open>1.2.3.4:8080\<close> twice gives one address there.\<close>

lemma extractProxies_is_spec_load_example:
  "extractProxies (''1.2.3.4:8080'' @ [CHR 0x0A] @ ''1.2.3.4:8080'') [''1.2.3.4:8080''] \<and>
   spec_load (''1.2.3.4:8080'' @ [CHR 0x0A] @ ''1.2.3.4:8080'') = [''1.2.3.4:8080''] \<and>
   length (spec_load (''1.2.3.4:8080'' @ [CHR 0x0A] @ ''1.2.3.4:8080'')) = 1"
  using extractProxies_is_spec_load [OF dup_extract] dup_extract
  unfolding spec_load_def dup_split by (simp add: trim_addr)


text \<open>
  Claim C6 holds of \<open>extractProxies\<close> and fails on the loader of the older variant:
  \<open>readProxies\<close> of \<open>src/unnamed/part_000\<close> appends every trimmed non-empty line and has no
  set, so a file with the line \<open>1.2.3.4:8080\<close> twice loads the address twice.
\<close>

theorem readProxies_000_keeps_duplicates:
  "readProxies_000
     (demo_world\<lparr>read_file := (\<lambda>path. Some (''1.2.3.4:8080'' @ [CHR 0x0A] @ ''1.2.3.4:8080''))\<rparr>)
     ''proxies.txt'' = Inr [''1.2.3.4:8080'', ''1.2.3.4:8080''] \<and>
   \<not> extractProxies (''1.2.3.4:8080'' @ [CHR 0x0A] @ ''1.2.3.4:8080'')
        [''1.2.3.4:8080'', ''1.2.3.4:8080'']"
  unfolding readProxies_000_def raw_lines_def extractProxies_def
  by (simp add: MaxScanTokenSize_def dropCR_def trim_addr)

section \<open>The thread count\<close>





section \<open>One probe\<close>

text \<open>
  Claim C3 fails on the code, in both variants: \<open>checkProxy\<close> calls \<open>resp.Body.Read\<close> once and
  drops its error, so it examines what that one read delivers, which can be less than the
  first 1024 bytes of the body. The body \<open>xxOK\<close> holds the marker \<open>OK\<close> within its first 1024
  bytes; when the read delivers two bytes the probe sends nothing.
\<close>

theorem short_read_misses_marker:
  "url_parse_ok short_read_world (''https'' @ ''://'' @ ''10.0.0.1:80'') \<and>
   client_get short_read_world 0 (''https'' @ ''://'' @ ''10.0.0.1:80'') ''https://example.com'' 5000 =
     Inr \<lparr>body = ''xxOK'', avail = 2\<rparr> \<and>
   strings_Contains (take 1024 ''xxOK'') ''OK'' \<and>
   checkProxy_verdict short_read_world 0 ''10.0.0.1:80'' ''https'' ''https://example.com'' ''OK'' 5000 = None \<and>
   checkProxy_verdict_000 short_read_world 0 ''10.0.0.1:80'' ''https'' ''https://example.com'' ''OK'' 5000 = None"
  by (simp add: short_read_world_def demo_world_def checkProxy_verdict_def checkProxy_verdict_000_def
        strings_Contains_def sublist_code)

text \<open>
  What \<open>checkProxy\<close> of \<open>proxy_checker.go\<close> does on a response: the bytes examined are those
  the single \<open>Read\<close> into the 1024-byte buffer delivers, a prefix of the body of at most 1024
  bytes. The probe sends its message if and only if the marker is a substring of these
  bytes, and the message carries a latency that is not negative. When the read delivers
  the first 1024 bytes of the body (or all of a shorter body), these bytes are the first
  1024 bytes, and the code does what the claim says.
\<close>

lemma checkProxy_verdict_on_response:
  assumes "url_parse_ok w (protocol @ ''://'' @ proxy)"
      and "client_get w i (protocol @ ''://'' @ proxy) targetURL timeout = Inr resp"
      and "prefix_read = take (min 1024 (avail resp)) (body resp)"
  shows "prefix prefix_read (body resp) \<and> length prefix_read \<le> 1024 \<and>
         (checkProxy_verdict w i proxy protocol targetURL validString timeout \<noteq> None
            \<longleftrightarrow> sublist validString prefix_read) \<and>
         (sublist validString prefix_read \<longrightarrow>
            (\<exists>ms. 0 \<le> ms \<and> checkProxy_verdict w i proxy protocol targetURL validString timeout =
                       Some (proxy @ ''|'' @ dec_int ms @ ''ms''))) \<and>
         (min 1024 (length (body resp)) \<le> avail resp \<longrightarrow> prefix_read = take 1024 (body resp))"
proof -
  have p: "prefix prefix_read (body resp)" "length prefix_read \<le> 1024"
    by (simp_all add: assms(3) take_is_prefix)
  have v: "checkProxy_verdict w i proxy protocol targetURL validString timeout =
           (if sublist validString prefix_read
            then Some (proxy @ ''|'' @ dec_int (int (since_ns w i) div 1000000) @ ''ms'') else None)"
    using assms by (simp add: checkProxy_verdict_def Let_def strings_Contains_def)
  have ms: "0 \<le> int (since_ns w i) div 1000000" by simp
  have f: "min 1024 (length (body resp)) \<le> avail resp \<longrightarrow> prefix_read = take 1024 (body resp)"
  proof
    assume a: "min 1024 (length (body resp)) \<le> avail resp"
    show "prefix_read = take 1024 (body resp)"
    proof (cases "1024 \<le> avail resp")
      case True
      then show ?thesis by (simp add: assms(3))
    next
      case False
      with a have "length (body resp) \<le> avail resp" by simp
      then show ?thesis using False by (simp add: assms(3))
    qed
  qed
  from p v ms f show ?thesis by auto
qed


lemma demo_verdict:
  "proxy \<noteq> ''bad::addr'' \<Longrightarrow>
   checkProxy_verdict demo_world i proxy ''https'' targetURL ''OK'' timeout = Some (proxy @ ''|12ms'')"
  by (simp add: checkProxy_verdict_def demo_world_def strings_Contains_def sublist_code
        dec_int_def dec_nat.simps digit_char_def)

lemma demo_verdict_bad:
  "checkProxy_verdict demo_world i ''bad::addr'' ''https'' targetURL validString timeout = None"
  by (simp add: checkProxy_verdict_def demo_world_def)

lemma checkProxy_verdict_on_response_example:
  "url_parse_ok demo_world (''https'' @ ''://'' @ ''10.0.0.1:80'') \<and>
   client_get demo_world 0 (''https'' @ ''://'' @ ''10.0.0.1:80'') ''https://example.com'' 5000 =
     Inr \<lparr>body = ''xxOK'', avail = 4\<rparr> \<and>
   sublist ''OK'' (take (min 1024 4) ''xxOK'') \<and>
   min 1024 (length ''xxOK'') \<le> (4::nat) \<and>
   (\<exists>ms. 0 \<le> ms \<and> checkProxy_verdict demo_world 0 ''10.0.0.1:80'' ''https'' ''https://example.com'' ''OK'' 5000 =
      Some (''10.0.0.1:80'' @ ''|'' @ dec_int ms @ ''ms'')) \<and>
   checkProxy_verdict demo_world 0 ''10.0.0.1:80'' ''https'' ''https://example.com'' ''OK'' 5000 =
      Some ''10.0.0.1:80|12ms''"
proof -
  have a: "url_parse_ok demo_world (''https'' @ ''://'' @ ''10.0.0.1:80'')"
    by (simp add: demo_world_def)
  have b: "client_get demo_world 0 (''https'' @ ''://'' @ ''10.0.0.1:80'') ''https://example.com'' 5000 =
     Inr \<lparr>body = ''xxOK'', avail = 4\<rparr>"
    by (simp add: demo_world_def)
  have c: "sublist ''OK'' (take (min 1024 4) ''xxOK'')"
    by (simp add: sublist_code)
  from checkProxy_verdict_on_response [OF a b refl, of "''OK''"] a b c
  show ?thesis by (simp add: demo_verdict)
qed

section \<open>A failed probe\<close>

text \<open>
  Claim C4. When the proxy URL does not parse or the request fails, for whatever cause, the
  probe has no message to send, and its step changes nothing but its own position, which
  moves to the deferred \<open>wg.Done()\<close>: the channel, the history of sends and \<open>validCount\<close>
  are unchanged, nothing panics, and the other goroutines are untouched. In the scenario of
  the two addresses \<open>10.0.0.1:80\<close> and \<open>bad::addr\<close> with protocol \<open>https\<close> (the witness), the
  probe of \<open>bad::addr\<close> ends so and the run completes with the one message of
  \<open>10.0.0.1:80\<close>.
\<close>

theorem failed_probe_is_silent:
  assumes "\<not> url_parse_ok w (protocol @ ''://'' @ wproxy (workers s ! i)) \<or>
           client_get w i (protocol @ ''://'' @ wproxy (workers s ! i)) (URL config) (Timeout config) = Inl cause"
      and "i < length (workers s)"
      and "wpc (workers s ! i) = WProbe"
      and "\<not> crashed s" and "mpc s \<noteq> MExit"
  shows "checkProxy_verdict w i (wproxy (workers s ! i)) protocol
           (URL config) (ValidStr config) (Timeout config) = None \<and>
         step w config protocol s (ProbeG i) =
           Some (s\<lparr>workers := (workers s)[i := Worker (wproxy (workers s ! i)) WWgDone]\<rparr>)"
proof -
  from assms(1)
  have v: "checkProxy_verdict w i (wproxy (workers s ! i)) protocol
             (URL config) (ValidStr config) (Timeout config) = None"
    by (auto simp: checkProxy_verdict_def Let_def)
  with assms(2-5) show ?thesis
    by (simp add: step_def worker_step_def set_wpc_def)
qed

lemmas pool_eval = step_def main_step_def worker_step_def handleExit_step_def set_wpc_def
  init_pool_def handleValidProxy_def saveValidProxy_def

lemma demo_open: "open_ok demo_world path"
  by (simp add: demo_world_def)

lemma demo_cfg: "URL demo_config = ''https://example.com''" "ValidStr demo_config = ''OK''"
  "Timeout demo_config = 5000" "Threads demo_config = 10"
  by (simp_all add: demo_config_def)

lemma scenario_dispatched:
  "run demo_world demo_config ''https'' (init_pool [''10.0.0.1:80'', ''bad::addr''] 2)
     [MainG, MainG, MainG, MainG, MainG, MainG] =
   Some ((init_pool [''10.0.0.1:80'', ''bad::addr''] 2)
     \<lparr>todo := [], workers := [Worker ''10.0.0.1:80'' WProbe, Worker ''bad::addr'' WProbe], sem := 2, wg := 2\<rparr>)"
  by (simp add: pool_eval)

theorem failed_probe_is_silent_witness:
  "(\<exists>s. run demo_world demo_config ''https'' (init_pool [''10.0.0.1:80'', ''bad::addr''] 2)
          [MainG, MainG, MainG, MainG, MainG, MainG] = Some s \<and>
        \<not> url_parse_ok demo_world (''https'' @ ''://'' @ wproxy (workers s ! 1)) \<and>
        1 < length (workers s) \<and> wpc (workers s ! 1) = WProbe \<and> \<not> crashed s \<and> mpc s \<noteq> MExit \<and>
        wproxy (workers s ! 1) = ''bad::addr'' \<and>
        step demo_world demo_config ''https'' s (ProbeG 1) =
          Some (s\<lparr>workers := (workers s)[1 := Worker ''bad::addr'' WWgDone]\<rparr>)) \<and>
   (\<exists>s. run demo_world demo_config ''https'' (init_pool [''10.0.0.1:80'', ''bad::addr''] 2)
          [MainG, MainG, MainG, MainG, MainG, MainG, ProbeG 1, ProbeG 1, ProbeG 0, ProbeG 0,
           ProbeG 0, ProbeG 0, ProbeG 0, MainG, MainG, MainG, MainG] = Some s \<and>
        mpc s = MExit \<and> \<not> crashed s \<and> sent_log s = [''10.0.0.1:80|12ms''] \<and>
        total_printed s = Some 1)"
proof -
  let ?s = "(init_pool [''10.0.0.1:80'', ''bad::addr''] 2)
     \<lparr>todo := [], workers := [Worker ''10.0.0.1:80'' WProbe, Worker ''bad::addr'' WProbe], sem := 2, wg := 2\<rparr>"
  have p: "\<not> url_parse_ok demo_world (''https'' @ ''://'' @ wproxy (workers ?s ! 1)) \<or>
           client_get demo_world 1 (''https'' @ ''://'' @ wproxy (workers ?s ! 1))
             (URL demo_config) (Timeout demo_config) = Inl ConnectionRefused"
    by (simp add: demo_world_def)
  have q: "1 < length (workers ?s)" "wpc (workers ?s ! 1) = WProbe" "\<not> crashed ?s" "mpc ?s \<noteq> MExit"
    by (simp_all add: init_pool_def)
  have first: "\<not> url_parse_ok demo_world (''https'' @ ''://'' @ wproxy (workers ?s ! 1)) \<and>
        1 < length (workers ?s) \<and> wpc (workers ?s ! 1) = WProbe \<and> \<not> crashed ?s \<and> mpc ?s \<noteq> MExit \<and>
        wproxy (workers ?s ! 1) = ''bad::addr'' \<and>
        step demo_world demo_config ''https'' ?s (ProbeG 1) =
          Some (?s\<lparr>workers := (workers ?s)[1 := Worker ''bad::addr'' WWgDone]\<rparr>)"
    using failed_probe_is_silent [OF p q] q
    by (simp add: demo_world_def)
  have second: "\<exists>s. run demo_world demo_config ''https'' (init_pool [''10.0.0.1:80'', ''bad::addr''] 2)
          [MainG, MainG, MainG, MainG, MainG, MainG, ProbeG 1, ProbeG 1, ProbeG 0, ProbeG 0,
           ProbeG 0, ProbeG 0, ProbeG 0, MainG, MainG, MainG, MainG] = Some s \<and>
        mpc s = MExit \<and> \<not> crashed s \<and> sent_log s = [''10.0.0.1:80|12ms''] \<and>
        total_printed s = Some 1"
    by (simp add: pool_eval demo_cfg demo_verdict demo_verdict_bad)
  from scenario_dispatched first second show ?thesis by blast
qed

section \<open>Steps of a probe goroutine\<close>

lemma worker_step_cases:
  assumes "worker_step w config protocol s i = Some s'"
  obtains
    (probe_none) "i < length (workers s)" "wpc (workers s ! i) = WProbe"
      "verdict_of w config protocol s i = None" "s' = set_wpc s i WWgDone"
  | (probe_some) m where "i < length (workers s)" "wpc (workers s ! i) = WProbe"
      "verdict_of w config protocol s i = Some m" "s' = set_wpc s i (WSend m)"
  | (send_closed) m where "i < length (workers s)" "wpc (workers s ! i) = WSend m"
      "closed s" "s' = s\<lparr>crashed := True\<rparr>"
  | (send) m where "i < length (workers s)" "wpc (workers s ! i) = WSend m"
      "\<not> closed s" "length (results s) < results_cap s"
      "s' = set_wpc (s\<lparr>results := results s @ [m], sent_log := sent_log s @ [m]\<rparr>) i WLoad"
  | (load) "i < length (workers s)" "wpc (workers s ! i) = WLoad"
      "s' = set_wpc s i (WStore (validCount s))"
  | (store) v where "i < length (workers s)" "wpc (workers s ! i) = WStore v"
      "s' = set_wpc (s\<lparr>validCount := v + 1\<rparr>) i WWgDone"
  | (wg_panic) "i < length (workers s)" "wpc (workers s ! i) = WWgDone"
      "wg s - 1 < 0" "s' = s\<lparr>crashed := True\<rparr>"
  | (wg_done) "i < length (workers s)" "wpc (workers s ! i) = WWgDone"
      "\<not> wg s - 1 < 0" "s' = set_wpc (s\<lparr>wg := wg s - 1\<rparr>) i WBarAdd"
  | (bar) "i < length (workers s)" "wpc (workers s ! i) = WBarAdd"
      "s' = set_wpc (s\<lparr>bar_adds := bar_adds s + 1\<rparr>) i WRelease"
  | (release) "i < length (workers s)" "wpc (workers s ! i) = WRelease"
      "0 < sem s" "s' = set_wpc (s\<lparr>sem := sem s - 1\<rparr>) i WFinished"
proof -
  from assms have i: "i < length (workers s)"
    by (simp add: worker_step_def split: if_splits)
  show thesis
  proof (cases "wpc (workers s ! i)")
    case WProbe
    show ?thesis
    proof (cases "verdict_of w config protocol s i")
      case None
      with assms i WProbe have "s' = set_wpc s i WWgDone"
        by (simp add: worker_step_def verdict_of_def)
      with i WProbe None show ?thesis by (rule probe_none)
    next
      case (Some m)
      with assms i WProbe have "s' = set_wpc s i (WSend m)"
        by (simp add: worker_step_def verdict_of_def)
      with i WProbe Some show ?thesis by (rule probe_some)
    qed
  next
    case (WSend m)
    show ?thesis
    proof (cases "closed s")
      case True
      with assms i WSend have "s' = s\<lparr>crashed := True\<rparr>" by (simp add: worker_step_def)
      with i WSend True show ?thesis by (rule send_closed)
    next
      case False
      with assms i WSend have "length (results s) < results_cap s"
        and "s' = set_wpc (s\<lparr>results := results s @ [m], sent_log := sent_log s @ [m]\<rparr>) i WLoad"
        by (simp_all add: worker_step_def split: if_splits)
      with i WSend False show ?thesis by (rule send)
    qed
  next
    case WLoad
    with assms i have "s' = set_wpc s i (WStore (validCount s))" by (simp add: worker_step_def)
    with i WLoad show ?thesis by (rule load)
  next
    case (WStore v)
    with assms i have "s' = set_wpc (s\<lparr>validCount := v + 1\<rparr>) i WWgDone" by (simp add: worker_step_def)
    with i WStore show ?thesis by (rule store)
  next
    case WWgDone
    show ?thesis
    proof (cases "wg s - 1 < 0")
      case True
      with assms i WWgDone have "s' = s\<lparr>crashed := True\<rparr>" by (simp add: worker_step_def)
      with i WWgDone True show ?thesis by (rule wg_panic)
    next
      case False
      with assms i WWgDone have "s' = set_wpc (s\<lparr>wg := wg s - 1\<rparr>) i WBarAdd"
        by (simp add: worker_step_def)
      with i WWgDone False show ?thesis by (rule wg_done)
    qed
  next
    case WBarAdd
    with assms i have "s' = set_wpc (s\<lparr>bar_adds := bar_adds s + 1\<rparr>) i WRelease"
      by (simp add: worker_step_def)
    with i WBarAdd show ?thesis by (rule bar)
  next
    case WRelease
    with assms i have "0 < sem s" and "s' = set_wpc (s\<lparr>sem := sem s - 1\<rparr>) i WFinished"
      by (simp_all add: worker_step_def split: if_splits)
    with i WRelease show ?thesis by (rule release)
  next
    case WFinished
    with assms i show ?thesis by (simp add: worker_step_def)
  qed
qed

lemma main_step_cases:
  assumes "main_step s = Some s'"
  obtains
    (loop_end) "mpc s = MLoop" "todo s = []" "s' = s\<lparr>mpc := MWait\<rparr>"
  | (add) "mpc s = MLoop" "todo s \<noteq> []" "s' = s\<lparr>wg := wg s + 1, mpc := MAcquire\<rparr>"
  | (acquire) "mpc s = MAcquire" "sem s < sem_cap s" "s' = s\<lparr>sem := sem s + 1, mpc := MGo\<rparr>"
  | (go) proxy rest where "mpc s = MGo" "todo s = proxy # rest"
      "s' = s\<lparr>workers := workers s @ [Worker proxy WProbe], todo := rest, mpc := MLoop\<rparr>"
  | (wait) "mpc s = MWait" "wg s = 0" "s' = s\<lparr>mpc := MClose\<rparr>"
  | (close_panic) "mpc s = MClose" "closed s" "s' = s\<lparr>crashed := True\<rparr>"
  | (close) "mpc s = MClose" "\<not> closed s" "s' = s\<lparr>closed := True, mpc := MPrint\<rparr>"
  | (print) "mpc s = MPrint" "s' = s\<lparr>total_printed := Some (validCount s), mpc := MExit\<rparr>"
proof (cases "mpc s")
  case MLoop
  show ?thesis
  proof (cases "todo s")
    case Nil
    with assms MLoop have "s' = s\<lparr>mpc := MWait\<rparr>" by (simp add: main_step_def)
    with MLoop Nil show ?thesis by (rule loop_end)
  next
    case (Cons proxy rest)
    with assms MLoop have "s' = s\<lparr>wg := wg s + 1, mpc := MAcquire\<rparr>" by (simp add: main_step_def)
    moreover from Cons have "todo s \<noteq> []" by simp
    ultimately show ?thesis using MLoop by (intro add)
  qed
next
  case MAcquire
  with assms have "sem s < sem_cap s" and "s' = s\<lparr>sem := sem s + 1, mpc := MGo\<rparr>"
    by (simp_all add: main_step_def split: if_splits)
  with MAcquire show ?thesis by (rule acquire)
next
  case MGo
  show ?thesis
  proof (cases "todo s")
    case Nil
    with assms MGo show ?thesis by (simp add: main_step_def)
  next
    case (Cons proxy rest)
    with assms MGo
    have "s' = s\<lparr>workers := workers s @ [Worker proxy WProbe], todo := rest, mpc := MLoop\<rparr>"
      by (simp add: main_step_def)
    with MGo Cons show ?thesis by (rule go)
  qed
next
  case MWait
  with assms have "wg s = 0" and "s' = s\<lparr>mpc := MClose\<rparr>"
    by (simp_all add: main_step_def split: if_splits)
  with MWait show ?thesis by (rule wait)
next
  case MClose
  show ?thesis
  proof (cases "closed s")
    case True
    with assms MClose have "s' = s\<lparr>crashed := True\<rparr>" by (simp add: main_step_def)
    with MClose True show ?thesis by (rule close_panic)
  next
    case False
    with assms MClose have "s' = s\<lparr>closed := True, mpc := MPrint\<rparr>" by (simp add: main_step_def)
    with MClose False show ?thesis by (rule close)
  qed
next
  case MPrint
  with assms have "s' = s\<lparr>total_printed := Some (validCount s), mpc := MExit\<rparr>"
    by (simp add: main_step_def)
  with MPrint show ?thesis by (rule print)
next
  case MExit
  with assms show ?thesis by (simp add: main_step_def)
qed

lemma handleExit_step_cases:
  assumes "handleExit_step w s = Some s'"
  obtains
    (recv_panic) m rest where "apc s = ARange" "results s = m # rest"
      "handleValidProxy w (files s) ''socks5'' m = None" "s' = s\<lparr>results := rest, crashed := True\<rparr>"
  | (recv) m rest files' where "apc s = ARange" "results s = m # rest"
      "handleValidProxy w (files s) ''socks5'' m = Some files'" "s' = s\<lparr>results := rest, files := files'\<rparr>"
  | (range_end) "apc s = ARange" "results s = []" "closed s" "s' = s\<lparr>apc := APrint\<rparr>"
  | (saved) "apc s = APrint" "s' = s\<lparr>saved_printed := Some (validCount s), apc := AReturned\<rparr>"
proof (cases "apc s")
  case ARange
  show ?thesis
  proof (cases "results s")
    case Nil
    with assms ARange have "closed s" and "s' = s\<lparr>apc := APrint\<rparr>"
      by (simp_all add: handleExit_step_def split: if_splits)
    with ARange Nil show ?thesis by (intro range_end)
  next
    case (Cons m rest)
    show ?thesis
    proof (cases "handleValidProxy w (files s) ''socks5'' m")
      case None
      with assms ARange Cons have "s' = s\<lparr>results := rest, crashed := True\<rparr>"
        by (simp add: handleExit_step_def)
      with ARange Cons None show ?thesis by (rule recv_panic)
    next
      case (Some files')
      with assms ARange Cons have "s' = s\<lparr>results := rest, files := files'\<rparr>"
        by (simp add: handleExit_step_def)
      with ARange Cons Some show ?thesis by (rule recv)
    qed
  qed
next
  case APrint
  with assms have "s' = s\<lparr>saved_printed := Some (validCount s), apc := AReturned\<rparr>"
    by (simp add: handleExit_step_def)
  with APrint show ?thesis by (rule saved)
next
  case AReturned
  with assms show ?thesis by (simp add: handleExit_step_def)
qed

lemma step_cases:
  assumes "step w config protocol s a = Some s'"
  obtains
    (main) "\<not> crashed s" "mpc s \<noteq> MExit" "a = MainG" "main_step s = Some s'"
  | (probe) i where "\<not> crashed s" "mpc s \<noteq> MExit" "a = ProbeG i"
      "worker_step w config protocol s i = Some s'"
  | (exit) "\<not> crashed s" "mpc s \<noteq> MExit" "a = ExitG" "handleExit_step w s = Some s'"
proof -
  from assms have alive: "\<not> crashed s" "mpc s \<noteq> MExit"
    by (simp_all add: step_def split: if_splits)
  show thesis
  proof (cases a)
    case MainG
    with assms alive have "main_step s = Some s'" by (simp add: step_def)
    with alive MainG show ?thesis by (intro main)
  next
    case (ProbeG i)
    with assms alive have "worker_step w config protocol s i = Some s'" by (simp add: step_def)
    with alive ProbeG show ?thesis by (intro probe)
  next
    case ExitG
    with assms alive have "handleExit_step w s = Some s'" by (simp add: step_def)
    with alive ExitG show ?thesis by (intro exit)
  qed
qed

lemma run_invariant:
  assumes "\<And>s a s'. I s \<Longrightarrow> step w config protocol s a = Some s' \<Longrightarrow> I s'"
      and "I s" and "run w config protocol s sched = Some s'"
  shows "I s'"
  using assms(2,3)
proof (induction sched arbitrary: s)
  case Nil
  then show ?case by simp
next
  case (Cons a sched)
  from Cons.prems(2) obtain t where t: "step w config protocol s a = Some t"
    and r: "run w config protocol t sched = Some s'"
    by (auto split: option.splits)
  from assms(1) [OF Cons.prems(1) t] have "I t" .
  from Cons.IH [OF this r] show ?case .
qed

section \<open>Counting positions\<close>

lemma count_pc_Nil [simp]: "count_pc P [] = 0"
  by (simp add: count_pc_def)

lemma count_pc_snoc [simp]:
  "count_pc P (ws @ [Worker p pc]) = count_pc P ws + (if P pc then 1 else 0)"
  by (simp add: count_pc_def)

lemma count_pc_le: "count_pc P ws \<le> length ws"
  by (simp add: count_pc_def)

lemma count_pc_update:
  "i < length ws \<Longrightarrow>
   count_pc P (ws[i := Worker p pc]) + (if P (wpc (ws ! i)) then 1 else 0) =
   count_pc P ws + (if P pc then 1 else 0)"
proof (induction ws arbitrary: i)
  case Nil
  then show ?case by simp
next
  case (Cons x ws)
  show ?case
  proof (cases i)
    case 0
    then show ?thesis by (simp add: count_pc_def)
  next
    case (Suc j)
    with Cons.prems have "j < length ws" by simp
    from Cons.IH [OF this] Suc show ?thesis by (simp add: count_pc_def)
  qed
qed

lemma count_pc_step:
  assumes "i < length ws" and "wpc (ws ! i) = pc"
  shows "count_pc P (ws[i := Worker (wproxy (ws ! i)) pc']) + (if P pc then 1 else 0) =
         count_pc P ws + (if P pc' then 1 else 0)"
  using count_pc_update [OF assms(1), of P "wproxy (ws ! i)" pc'] assms(2) by simp

lemma set_wpc_workers [simp]:
  "workers (set_wpc s i pc) = (workers s)[i := Worker (wproxy (workers s ! i)) pc]"
  by (simp add: set_wpc_def)

lemma set_wpc_fields [simp]:
  "mpc (set_wpc s i pc) = mpc s" "todo (set_wpc s i pc) = todo s" "sem (set_wpc s i pc) = sem s"
  "sem_cap (set_wpc s i pc) = sem_cap s" "wg (set_wpc s i pc) = wg s"
  "results (set_wpc s i pc) = results s" "results_cap (set_wpc s i pc) = results_cap s"
  "closed (set_wpc s i pc) = closed s" "validCount (set_wpc s i pc) = validCount s"
  "bar_adds (set_wpc s i pc) = bar_adds s" "apc (set_wpc s i pc) = apc s"
  "files (set_wpc s i pc) = files s" "total_printed (set_wpc s i pc) = total_printed s"
  "saved_printed (set_wpc s i pc) = saved_printed s" "crashed (set_wpc s i pc) = crashed s"
  "sent_log (set_wpc s i pc) = sent_log s"
  by (simp_all add: set_wpc_def)

section \<open>The admission gate\<close>

lemma gate_inv_init: "gate_inv (init_pool proxies threads)"
  by (simp add: gate_inv_def init_pool_def)

lemma gate_inv_main:
  assumes "gate_inv s" and "main_step s = Some s'"
  shows "gate_inv s'"
  using assms(2)
proof (cases rule: main_step_cases)
  case go
  with assms(1) show ?thesis by (simp add: gate_inv_def holds_slot_def accounted_def)
qed (use assms(1) in \<open>simp_all add: gate_inv_def\<close>)

lemma gate_inv_worker:
  assumes inv: "gate_inv s" and st: "worker_step w config protocol s i = Some s'"
  shows "gate_inv s'"
  using st
proof (cases rule: worker_step_cases)
  case (send_closed m)
  with inv show ?thesis by (simp add: gate_inv_def)
next
  case wg_panic
  with inv show ?thesis by (simp add: gate_inv_def)
next
  case probe_none
  from count_pc_step [OF probe_none(1,2), of holds_slot "WWgDone"] count_pc_step [OF probe_none(1,2), of accounted "WWgDone"] inv probe_none
  show ?thesis by (simp add: gate_inv_def holds_slot_def accounted_def)
next
  case (probe_some m)
  from count_pc_step [OF probe_some(1,2), of holds_slot "WSend m"] count_pc_step [OF probe_some(1,2), of accounted "WSend m"] inv probe_some
  show ?thesis by (simp add: gate_inv_def holds_slot_def accounted_def)
next
  case (send m)
  from count_pc_step [OF send(1,2), of holds_slot "WLoad"] count_pc_step [OF send(1,2), of accounted "WLoad"] inv send
  show ?thesis by (simp add: gate_inv_def holds_slot_def accounted_def)
next
  case load
  from count_pc_step [OF load(1,2), of holds_slot "WStore (validCount s)"] count_pc_step [OF load(1,2), of accounted "WStore (validCount s)"] inv load
  show ?thesis by (simp add: gate_inv_def holds_slot_def accounted_def)
next
  case (store v)
  from count_pc_step [OF store(1,2), of holds_slot "WWgDone"] count_pc_step [OF store(1,2), of accounted "WWgDone"] inv store
  show ?thesis by (simp add: gate_inv_def holds_slot_def accounted_def)
next
  case wg_done
  from count_pc_step [OF wg_done(1,2), of holds_slot "WBarAdd"] count_pc_step [OF wg_done(1,2), of accounted "WBarAdd"] inv wg_done
  show ?thesis by (simp add: gate_inv_def holds_slot_def accounted_def)
next
  case bar
  from count_pc_step [OF bar(1,2), of holds_slot "WRelease"] count_pc_step [OF bar(1,2), of accounted "WRelease"] inv bar
  show ?thesis by (simp add: gate_inv_def holds_slot_def accounted_def)
next
  case release
  from count_pc_step [OF release(1,2), of holds_slot "WFinished"]
  have "count_pc holds_slot (workers s) =
        Suc (count_pc holds_slot ((workers s)[i := Worker (wproxy (workers s ! i)) WFinished]))"
    by (simp add: holds_slot_def)
  with count_pc_step [OF release(1,2), of accounted "WFinished"] inv release
  show ?thesis by (simp add: gate_inv_def holds_slot_def accounted_def)
qed

lemma gate_inv_exit:
  assumes "gate_inv s" and "handleExit_step w s = Some s'"
  shows "gate_inv s'"
  using assms(2) by (cases rule: handleExit_step_cases) (use assms(1) in \<open>simp_all add: gate_inv_def\<close>)

lemma gate_inv_step:
  assumes "gate_inv s" and "step w config protocol s a = Some s'"
  shows "gate_inv s'"
  using assms(2)
proof (cases rule: step_cases)
  case main
  with assms(1) show ?thesis by (blast intro: gate_inv_main)
next
  case (probe i)
  with assms(1) show ?thesis by (blast intro: gate_inv_worker)
next
  case exit
  with assms(1) show ?thesis by (blast intro: gate_inv_exit)
qed

lemma gate_inv_run:
  assumes "run w config protocol (init_pool proxies threads) sched = Some s"
  shows "gate_inv s"
proof (rule run_invariant [where I = gate_inv])
  show "gate_inv (init_pool proxies threads)" by (rule gate_inv_init)
  show "run w config protocol (init_pool proxies threads) sched = Some s" by (rule assms)
  show "\<And>s a s'. gate_inv s \<Longrightarrow> step w config protocol s a = Some s' \<Longrightarrow> gate_inv s'"
    by (rule gate_inv_step)
qed


section \<open>The wait group and the close\<close>

lemma list_all_update:
  "list_all P xs \<Longrightarrow> P x \<Longrightarrow> list_all P (xs[i := x])"
  by (metis (full_types) insert_iff list_all_iff set_update_subset_insert subsetD)

lemma Split_not_Nil: "strings_Split m sep \<noteq> []"
  by (induction m) (auto split: list.splits)

lemma count_pc_pos:
  "i < length ws \<Longrightarrow> P (wpc (ws ! i)) \<Longrightarrow> 0 < count_pc P ws"
  unfolding count_pc_def length_greater_0_conv filter_empty_conv
  using nth_mem by blast

lemma Split_two_parts:
  "sep \<in> set m \<Longrightarrow> \<exists>a b rest. strings_Split m sep = a # b # rest"
proof (induction m)
  case Nil
  then show ?case by simp
next
  case (Cons c cs)
  show ?case
  proof (cases "c = sep")
    case True
    then show ?thesis using Split_not_Nil [of cs sep] by (cases "strings_Split cs sep") auto
  next
    case False
    with Cons.prems have "sep \<in> set cs" by simp
    from Cons.IH [OF this] False show ?thesis by auto
  qed
qed

lemma handleValidProxy_has_bar:
  "has_bar m \<Longrightarrow> handleValidProxy w fsys protocol m \<noteq> None"
  using Split_two_parts [of "CHR ''|''" m]
  by (auto simp: has_bar_def handleValidProxy_def)

lemma verdict_has_bar:
  "checkProxy_verdict w i proxy protocol targetURL validString timeout = Some m \<Longrightarrow> has_bar m"
  by (auto simp: checkProxy_verdict_def has_bar_def Let_def split: if_splits sum.splits)

lemma sync_inv_init: "sync_inv (init_pool proxies threads)"
  by (simp add: sync_inv_def init_pool_def)

lemma sync_inv_main:
  assumes inv: "sync_inv s" and st: "main_step s = Some s'"
  shows "sync_inv s'"
  using st
proof (cases rule: main_step_cases)
  case loop_end
  with inv show ?thesis by (simp add: sync_inv_def)
next
  case add
  with inv show ?thesis by (simp add: sync_inv_def)
next
  case acquire
  with inv show ?thesis by (simp add: sync_inv_def)
next
  case (go proxy rest)
  with inv show ?thesis by (auto simp: sync_inv_def in_checkProxy_def)
next
  case wait
  with inv show ?thesis by (simp add: sync_inv_def)
next
  case close_panic
  with inv show ?thesis by (simp add: sync_inv_def)
next
  case close
  with inv show ?thesis by (simp add: sync_inv_def)
next
  case print
  with inv show ?thesis by (simp add: sync_inv_def)
qed

lemma sync_inv_worker:
  assumes inv: "sync_inv s" and st: "worker_step w config protocol s i = Some s'"
  shows "sync_inv s'"
proof -
  from inv have wgc: "int (count_pc in_checkProxy (workers s))
            + (if mpc s = MAcquire \<or> mpc s = MGo then 1 else 0) = wg s"
    and past: "mpc s = MClose \<or> mpc s = MPrint \<or> mpc s = MExit \<Longrightarrow> wg s = 0"
    and cl: "closed s \<Longrightarrow> mpc s = MPrint \<or> mpc s = MExit"
    and bars: "list_all (\<lambda>x. case wpc x of WSend m \<Rightarrow> has_bar m | _ \<Rightarrow> True) (workers s)"
    by (simp_all add: sync_inv_def)
  have inside: "0 < wg s" if "i < length (workers s)" "in_checkProxy (wpc (workers s ! i))"
    using count_pc_pos [of i "workers s" in_checkProxy] that wgc by (simp split: if_splits)
  note upd = list_all_update [OF bars]
  from st show ?thesis
  proof (cases rule: worker_step_cases)
    case probe_none
    from count_pc_step [OF probe_none(1,2), of in_checkProxy WWgDone] inv probe_none
      upd [of "Worker (wproxy (workers s ! i)) WWgDone" i]
    show ?thesis by (simp add: sync_inv_def in_checkProxy_def)
  next
    case (probe_some m)
    from probe_some(3) have "has_bar m" by (auto simp: verdict_of_def dest: verdict_has_bar)
    with count_pc_step [OF probe_some(1,2), of in_checkProxy "WSend m"] inv probe_some
      upd [of "Worker (wproxy (workers s ! i)) (WSend m)" i]
    show ?thesis by (simp add: sync_inv_def in_checkProxy_def)
  next
    case (send_closed m)
    from inside [OF send_closed(1)] send_closed(2) have "0 < wg s" by (simp add: in_checkProxy_def)
    with past cl [OF send_closed(3)] show ?thesis by auto
  next
    case (send m)
    from bars send(1,2) have "has_bar m"
      by (auto simp: list_all_iff dest!: bspec [where x = "workers s ! i"])
    with count_pc_step [OF send(1,2), of in_checkProxy WLoad] inv send
      upd [of "Worker (wproxy (workers s ! i)) WLoad" i]
    show ?thesis by (simp add: sync_inv_def in_checkProxy_def)
  next
    case load
    from count_pc_step [OF load(1,2), of in_checkProxy "WStore (validCount s)"] inv load
      upd [of "Worker (wproxy (workers s ! i)) (WStore (validCount s))" i]
    show ?thesis by (simp add: sync_inv_def in_checkProxy_def)
  next
    case (store v)
    from count_pc_step [OF store(1,2), of in_checkProxy WWgDone] inv store
      upd [of "Worker (wproxy (workers s ! i)) WWgDone" i]
    show ?thesis by (simp add: sync_inv_def in_checkProxy_def)
  next
    case wg_panic
    from inside [OF wg_panic(1)] wg_panic(2,3) show ?thesis by (simp add: in_checkProxy_def)
  next
    case wg_done
    from inside [OF wg_done(1)] wg_done(2) have pos: "0 < wg s" by (simp add: in_checkProxy_def)
    with past have notpast: "\<not> (mpc s = MClose \<or> mpc s = MPrint \<or> mpc s = MExit)" by auto
    from count_pc_step [OF wg_done(1,2), of in_checkProxy WBarAdd]
    have "count_pc in_checkProxy (workers s) =
          Suc (count_pc in_checkProxy ((workers s)[i := Worker (wproxy (workers s ! i)) WBarAdd]))"
      by (simp add: in_checkProxy_def)
    with inv wg_done notpast upd [of "Worker (wproxy (workers s ! i)) WBarAdd" i]
    show ?thesis by (simp add: sync_inv_def)
  next
    case bar
    from count_pc_step [OF bar(1,2), of in_checkProxy WRelease] inv bar
      upd [of "Worker (wproxy (workers s ! i)) WRelease" i]
    show ?thesis by (simp add: sync_inv_def in_checkProxy_def)
  next
    case release
    from count_pc_step [OF release(1,2), of in_checkProxy WFinished] inv release
      upd [of "Worker (wproxy (workers s ! i)) WFinished" i]
    show ?thesis by (simp add: sync_inv_def in_checkProxy_def)
  qed
qed

lemma sync_inv_exit:
  assumes inv: "sync_inv s" and st: "handleExit_step w s = Some s'"
  shows "sync_inv s'"
  using st
proof (cases rule: handleExit_step_cases)
  case (recv_panic m rest)
  from inv recv_panic(2) have "has_bar m" by (simp add: sync_inv_def)
  from handleValidProxy_has_bar [OF this, of w "files s" "''socks5''"] recv_panic(3)
  show ?thesis by simp
next
  case (recv m rest files')
  with inv show ?thesis by (simp add: sync_inv_def)
next
  case range_end
  with inv show ?thesis by (auto simp: sync_inv_def)
next
  case saved
  with inv show ?thesis by (simp add: sync_inv_def)
qed

lemma sync_inv_step:
  assumes "sync_inv s" and "step w config protocol s a = Some s'"
  shows "sync_inv s'"
  using assms(2)
proof (cases rule: step_cases)
  case main
  with assms(1) show ?thesis by (blast intro: sync_inv_main)
next
  case (probe i)
  with assms(1) show ?thesis by (blast intro: sync_inv_worker)
next
  case exit
  with assms(1) show ?thesis by (blast intro: sync_inv_exit)
qed

lemma sync_inv_run:
  assumes "run w config protocol (init_pool proxies threads) sched = Some s"
  shows "sync_inv s"
proof (rule run_invariant [where I = sync_inv])
  show "sync_inv (init_pool proxies threads)" by (rule sync_inv_init)
  show "run w config protocol (init_pool proxies threads) sched = Some s" by (rule assms)
  show "\<And>s a s'. sync_inv s \<Longrightarrow> step w config protocol s a = Some s' \<Longrightarrow> sync_inv s'"
    by (rule sync_inv_step)
qed


section \<open>The result channel\<close>

lemma chan_inv_init: "chan_inv (init_pool proxies threads)"
  by (simp add: chan_inv_def init_pool_def)

lemma chan_inv_main:
  assumes inv: "chan_inv s" and st: "main_step s = Some s'"
  shows "chan_inv s'"
  using st
proof (cases rule: main_step_cases)
  case (go proxy rest)
  with inv show ?thesis by (simp add: chan_inv_def after_send_def)
qed (use inv in \<open>simp_all add: chan_inv_def\<close>)

lemma chan_inv_worker:
  assumes inv: "chan_inv s" and st: "worker_step w config protocol s i = Some s'"
  shows "chan_inv s'"
  using st
proof (cases rule: worker_step_cases)
  case probe_none
  from count_pc_step [OF probe_none(1,2), of after_send WWgDone] inv probe_none
  show ?thesis by (simp add: chan_inv_def after_send_def)
next
  case (probe_some m)
  from count_pc_step [OF probe_some(1,2), of after_send "WSend m"] inv probe_some
  show ?thesis by (simp add: chan_inv_def after_send_def)
next
  case (send_closed m)
  with inv show ?thesis by (simp add: chan_inv_def)
next
  case (send m)
  from count_pc_step [OF send(1,2), of after_send WLoad] inv send
  show ?thesis by (simp add: chan_inv_def after_send_def)
next
  case load
  from count_pc_step [OF load(1,2), of after_send "WStore (validCount s)"] inv load
  show ?thesis by (simp add: chan_inv_def after_send_def)
next
  case (store v)
  from count_pc_step [OF store(1,2), of after_send WWgDone] inv store
  show ?thesis by (simp add: chan_inv_def after_send_def)
next
  case wg_panic
  with inv show ?thesis by (simp add: chan_inv_def)
next
  case wg_done
  from count_pc_step [OF wg_done(1,2), of after_send WBarAdd] inv wg_done
  show ?thesis by (simp add: chan_inv_def after_send_def)
next
  case bar
  from count_pc_step [OF bar(1,2), of after_send WRelease] inv bar
  show ?thesis by (simp add: chan_inv_def after_send_def)
next
  case release
  from count_pc_step [OF release(1,2), of after_send WFinished] inv release
  show ?thesis by (simp add: chan_inv_def after_send_def)
qed

lemma chan_inv_exit:
  assumes inv: "chan_inv s" and st: "handleExit_step w s = Some s'"
  shows "chan_inv s'"
  using st
  by (cases rule: handleExit_step_cases) (use inv in \<open>simp_all add: chan_inv_def\<close>)

lemma chan_inv_step:
  assumes "chan_inv s" and "step w config protocol s a = Some s'"
  shows "chan_inv s'"
  using assms(2)
proof (cases rule: step_cases)
  case main
  with assms(1) show ?thesis by (blast intro: chan_inv_main)
next
  case (probe i)
  with assms(1) show ?thesis by (blast intro: chan_inv_worker)
next
  case exit
  with assms(1) show ?thesis by (blast intro: chan_inv_exit)
qed

lemma chan_inv_run:
  assumes "run w config protocol (init_pool proxies threads) sched = Some s"
  shows "chan_inv s"
proof (rule run_invariant [where I = chan_inv])
  show "chan_inv (init_pool proxies threads)" by (rule chan_inv_init)
  show "run w config protocol (init_pool proxies threads) sched = Some s" by (rule assms)
  show "\<And>s a s'. chan_inv s \<Longrightarrow> step w config protocol s a = Some s' \<Longrightarrow> chan_inv s'"
    by (rule chan_inv_step)
qed

lemma results_cap_step:
  assumes "step w config protocol s a = Some s'"
  shows "results_cap s' = results_cap s \<and> sem_cap s' = sem_cap s"
  using assms
proof (cases rule: step_cases)
  case main
  from main(4) show ?thesis by (cases rule: main_step_cases) simp_all
next
  case (probe i)
  from probe(4) show ?thesis by (cases rule: worker_step_cases) simp_all
next
  case exit
  from exit(4) show ?thesis by (cases rule: handleExit_step_cases) simp_all
qed

lemma caps_run:
  assumes "run w config protocol (init_pool proxies threads) sched = Some s"
  shows "results_cap s = length proxies \<and> sem_cap s = threads"
proof (rule run_invariant [where I = "\<lambda>s. results_cap s = length proxies \<and> sem_cap s = threads"])
  show "results_cap (init_pool proxies threads) = length proxies \<and>
        sem_cap (init_pool proxies threads) = threads"
    by (simp add: init_pool_def)
  show "run w config protocol (init_pool proxies threads) sched = Some s" by (rule assms)
  show "\<And>s a s'. results_cap s = length proxies \<and> sem_cap s = threads \<Longrightarrow>
          step w config protocol s a = Some s' \<Longrightarrow>
          results_cap s' = length proxies \<and> sem_cap s' = threads"
    using results_cap_step by simp
qed

section \<open>A run that dispatches nothing\<close>

lemma idle_inv_main:
  assumes inv: "idle_inv s" and st: "main_step s = Some s'"
  shows "idle_inv s'"
  using st
proof (cases rule: main_step_cases)
  case loop_end
  with inv show ?thesis by (auto simp: idle_inv_def split: if_splits)
next
  case add
  with inv show ?thesis by (auto simp: idle_inv_def split: if_splits)
next
  case acquire
  with inv show ?thesis by (auto simp: idle_inv_def split: if_splits)
next
  case (go proxy rest)
  with inv show ?thesis by (auto simp: idle_inv_def split: if_splits)
next
  case wait
  with inv show ?thesis by (auto simp: idle_inv_def split: if_splits)
next
  case close_panic
  with inv show ?thesis by (auto simp: idle_inv_def split: if_splits)
next
  case close
  with inv show ?thesis by (auto simp: idle_inv_def split: if_splits)
next
  case print
  with inv show ?thesis by (auto simp: idle_inv_def split: if_splits)
qed

lemma idle_inv_exit:
  assumes inv: "idle_inv s" and st: "handleExit_step w s = Some s'"
  shows "idle_inv s'"
  using st
  by (cases rule: handleExit_step_cases) (use inv in \<open>simp_all add: idle_inv_def\<close>)

lemma idle_inv_step:
  assumes "idle_inv s" and "step w config protocol s a = Some s'"
  shows "idle_inv s'"
  using assms(2)
proof (cases rule: step_cases)
  case main
  with assms(1) show ?thesis by (blast intro: idle_inv_main)
next
  case (probe i)
  from probe(4) have "i < length (workers s)"
    by (simp add: worker_step_def split: if_splits)
  with assms(1) show ?thesis by (simp add: idle_inv_def)
next
  case exit
  with assms(1) show ?thesis by (blast intro: idle_inv_exit)
qed

lemma idle_inv_run:
  assumes "idle_inv s" and "run w config protocol s sched = Some s'"
  shows "idle_inv s'"
proof (rule run_invariant [where I = idle_inv])
  show "idle_inv s" by (rule assms)
  show "run w config protocol s sched = Some s'" by (rule assms)
  show "\<And>s a s'. idle_inv s \<Longrightarrow> step w config protocol s a = Some s' \<Longrightarrow> idle_inv s'"
    by (rule idle_inv_step)
qed

lemma idle_inv_empty: "idle_inv (init_pool [] threads)"
  by (simp add: idle_inv_def init_pool_def)

lemma idle_inv_no_slot: "idle_inv (init_pool proxies 0)"
  by (simp add: idle_inv_def init_pool_def)


section \<open>An empty source\<close>

lemma proxySet_empty:
  assumes "\<forall>l \<in> set (strings_Split content (CHR 0x0A)). strings_TrimSpace l = []"
  shows "proxySet content = {}"
  using assms by (auto simp: proxySet_spec_load spec_load_def)

lemma extractProxies_empty:
  assumes "\<forall>l \<in> set (strings_Split content (CHR 0x0A)). strings_TrimSpace l = []"
  shows "extractProxies content uniqueProxies \<longleftrightarrow> uniqueProxies = []"
  using proxySet_empty [OF assms] by (auto simp: extractProxies_def)

lemma run_empty_completes:
  "run w config protocol (init_pool [] threads) [MainG, MainG, MainG, MainG] =
     Some ((init_pool [] threads)\<lparr>mpc := MExit, closed := True, total_printed := Some 0\<rparr>)"
  by (simp add: step_def main_step_def init_pool_def)

text \<open>
  Claim C9. When every line of the content is empty (or white space only), the load
  succeeds with the empty list, from a file and from a URL. The pool over the empty list
  starts no probe in any execution, counts and sends nothing, does not panic, and prints the
  total zero when it prints one; \<open>main\<close> is never blocked: four steps of \<open>main\<close> alone take
  it through the loop, \<open>wg.Wait()\<close>, \<open>close(results)\<close> and the print of the total 0.
\<close>

theorem empty_source_runs_empty:
  assumes "\<forall>l \<in> set (strings_Split content (CHR 0x0A)). strings_TrimSpace l = []"
  shows "(extractProxies content uniqueProxies \<longleftrightarrow> uniqueProxies = []) \<and>
         (\<not> strings_HasPrefix filePath ''http://'' \<and> \<not> strings_HasPrefix filePath ''https://'' \<and>
          read_file w filePath = Some content \<longrightarrow>
            (readProxies w filePath r \<longleftrightarrow> r = Inr [])) \<and>
         ((strings_HasPrefix filePath ''http://'' \<or> strings_HasPrefix filePath ''https://'') \<and>
          http_fetch w filePath = Some content \<longrightarrow>
            (readProxies w filePath r \<longleftrightarrow> r = Inr [])) \<and>
         (\<forall>sched s. run w config protocol (init_pool [] threads) sched = Some s \<longrightarrow>
            workers s = [] \<and> validCount s = 0 \<and> sent_log s = [] \<and> \<not> crashed s \<and>
            (total_printed s = None \<or> total_printed s = Some 0)) \<and>
         map_option mpc (run w config protocol (init_pool [] threads) [MainG, MainG, MainG, MainG])
           = Some MExit \<and>
         map_option total_printed (run w config protocol (init_pool [] threads) [MainG, MainG, MainG, MainG])
           = Some (Some 0)"
proof -
  note e = extractProxies_empty [OF assms]
  have from_file: "\<not> strings_HasPrefix filePath ''http://'' \<and> \<not> strings_HasPrefix filePath ''https://'' \<and>
          read_file w filePath = Some content \<longrightarrow>
            (readProxies w filePath r \<longleftrightarrow> r = Inr [])"
    by (cases r) (auto simp: readProxies_def e)
  have from_url: "(strings_HasPrefix filePath ''http://'' \<or> strings_HasPrefix filePath ''https://'') \<and>
          http_fetch w filePath = Some content \<longrightarrow>
            (readProxies w filePath r \<longleftrightarrow> r = Inr [])"
    by (cases r) (auto simp: readProxies_def fetchProxiesFromURL_def e)
  have pool: "\<forall>sched s. run w config protocol (init_pool [] threads) sched = Some s \<longrightarrow>
            workers s = [] \<and> validCount s = 0 \<and> sent_log s = [] \<and> \<not> crashed s \<and>
            (total_printed s = None \<or> total_printed s = Some 0)"
  proof (intro allI impI)
    fix sched s
    assume r: "run w config protocol (init_pool [] threads) sched = Some s"
    from idle_inv_run [OF idle_inv_empty r] sync_inv_run [OF r]
    show "workers s = [] \<and> validCount s = 0 \<and> sent_log s = [] \<and> \<not> crashed s \<and>
            (total_printed s = None \<or> total_printed s = Some 0)"
      by (simp add: idle_inv_def sync_inv_def)
  qed
  have fin:
    "map_option mpc (run w config protocol (init_pool [] threads) [MainG, MainG, MainG, MainG])
           = Some MExit"
    "map_option total_printed (run w config protocol (init_pool [] threads) [MainG, MainG, MainG, MainG])
           = Some (Some 0)"
    unfolding run_empty_completes by simp_all
  show ?thesis by (intro conjI e from_file from_url pool fin)
qed

theorem empty_source_runs_empty_witness:
  "strings_Split [CHR 0x20, CHR 0x0A] (CHR 0x0A) = [[CHR 0x20], []] \<and>
   strings_TrimSpace [CHR 0x20] = [] \<and> strings_TrimSpace [] = [] \<and>
   extractProxies [CHR 0x20, CHR 0x0A] [] \<and>
   \<not> strings_HasPrefix ''proxies.txt'' ''http://'' \<and> \<not> strings_HasPrefix ''proxies.txt'' ''https://'' \<and>
   read_file (demo_world\<lparr>read_file := (\<lambda>path. Some [CHR 0x20, CHR 0x0A])\<rparr>) ''proxies.txt''
     = Some [CHR 0x20, CHR 0x0A] \<and>
   readProxies (demo_world\<lparr>read_file := (\<lambda>path. Some [CHR 0x20, CHR 0x0A])\<rparr>) ''proxies.txt'' (Inr []) \<and>
   strings_HasPrefix ''http://list.example/p.txt'' ''http://'' \<and>
   http_fetch (demo_world\<lparr>http_fetch := (\<lambda>url. Some [CHR 0x20, CHR 0x0A])\<rparr>) ''http://list.example/p.txt''
     = Some [CHR 0x20, CHR 0x0A] \<and>
   readProxies (demo_world\<lparr>http_fetch := (\<lambda>url. Some [CHR 0x20, CHR 0x0A])\<rparr>)
     ''http://list.example/p.txt'' (Inr []) \<and>
   map_option mpc (run (demo_world\<lparr>read_file := (\<lambda>path. Some [CHR 0x20, CHR 0x0A])\<rparr>) demo_config
       ''socks5'' (init_pool [] 10) [MainG, MainG, MainG, MainG]) = Some MExit \<and>
   map_option total_printed (run (demo_world\<lparr>read_file := (\<lambda>path. Some [CHR 0x20, CHR 0x0A])\<rparr>) demo_config
       ''socks5'' (init_pool [] 10) [MainG, MainG, MainG, MainG]) = Some (Some 0)"
proof -
  have h: "\<forall>l \<in> set (strings_Split [CHR 0x20, CHR 0x0A] (CHR 0x0A)). strings_TrimSpace l = []"
    by (simp add: strings_TrimSpace_def TrimLeft_def TrimRight_def asciiSpace_def)
  have p: "\<not> strings_HasPrefix ''proxies.txt'' ''http://''" "\<not> strings_HasPrefix ''proxies.txt'' ''https://''"
    "strings_HasPrefix ''http://list.example/p.txt'' ''http://''"
    by (simp_all add: strings_HasPrefix_def)
  have rd: "read_file (demo_world\<lparr>read_file := (\<lambda>path. Some [CHR 0x20, CHR 0x0A])\<rparr>) ''proxies.txt''
     = Some [CHR 0x20, CHR 0x0A]"
    "http_fetch (demo_world\<lparr>http_fetch := (\<lambda>url. Some [CHR 0x20, CHR 0x0A])\<rparr>) ''http://list.example/p.txt''
     = Some [CHR 0x20, CHR 0x0A]"
    by simp_all
  note t1 = empty_source_runs_empty [OF h, of "[]" "''proxies.txt''"
      "demo_world\<lparr>read_file := (\<lambda>path. Some [CHR 0x20, CHR 0x0A])\<rparr>" "Inr []" demo_config "''socks5''" 10]
  note t2 = empty_source_runs_empty [OF h, of "[]" "''http://list.example/p.txt''"
      "demo_world\<lparr>http_fetch := (\<lambda>url. Some [CHR 0x20, CHR 0x0A])\<rparr>" "Inr []" demo_config "''socks5''" 10]
  have sp: "strings_Split [CHR 0x20, CHR 0x0A] (CHR 0x0A) = [[CHR 0x20], []]"
    "strings_TrimSpace [CHR 0x20] = []"
    by (simp_all add: strings_TrimSpace_def TrimLeft_def TrimRight_def asciiSpace_def)
  from t1 t2 p rd sp show ?thesis by (simp del: run.simps)
qed

section \<open>The count of valid proxies\<close>

text \<open>
  Claim C1 fails on the code. \<open>checkProxy\<close> executes \<open>*validCount++\<close> in every probe goroutine
  with no lock and no atomic operation: a plain read and a plain write. With two valid
  proxies and two slots, both goroutines can read 0 before either writes; both write 1.
  The execution below ends with two messages sent on the channel, the channel closed after
  both probes have completed, and the total 1 printed.
\<close>

theorem lost_update:
  "\<exists>s. run demo_world demo_config ''https'' (init_pool [''10.0.0.1:80'', ''10.0.0.2:80''] 2)
          [MainG, MainG, MainG, MainG, MainG, MainG,
           ProbeG 0, ProbeG 1, ProbeG 0, ProbeG 1,
           ProbeG 0, ProbeG 1, ProbeG 0, ProbeG 1,
           ProbeG 0, ProbeG 1, ProbeG 0, ProbeG 1, ProbeG 0, ProbeG 1,
           ExitG, ExitG, MainG, MainG, MainG, ExitG, ExitG, MainG] = Some s \<and>
        mpc s = MExit \<and> closed s \<and> \<not> crashed s \<and>
        workers s = [Worker ''10.0.0.1:80'' WFinished, Worker ''10.0.0.2:80'' WFinished] \<and>
        sent_log s = [''10.0.0.1:80|12ms'', ''10.0.0.2:80|12ms''] \<and>
        validCount s = 1 \<and> total_printed s = Some 1 \<and> saved_printed s = Some 1"
  by (simp add: pool_eval demo_cfg demo_verdict demo_open)

section \<open>The file of valid proxies\<close>

text \<open>\<open>saveValidProxy\<close> appends: what the file held stays in front, and no other file
  changes.\<close>

lemma saveValidProxy_appends:
  assumes "open_ok w (''results/'' @ protocol @ ''.valid.txt'')"
  shows "fst (saveValidProxy w fsys protocol proxy) (''results/'' @ protocol @ ''.valid.txt'') =
           Some ((case fsys (''results/'' @ protocol @ ''.valid.txt'') of None \<Rightarrow> [] | Some old \<Rightarrow> old)
                 @ proxy @ [CHR 0x0A]) \<and>
         (\<forall>path. path \<noteq> ''results/'' @ protocol @ ''.valid.txt'' \<longrightarrow>
            fst (saveValidProxy w fsys protocol proxy) path = fsys path)"
  using assms by (simp add: saveValidProxy_def Let_def)

text \<open>
  Claim C7 fails on the code. The only reader of the channel in \<open>proxy_checker.go\<close> is the
  goroutine of \<open>handleExit\<close>, which calls \<open>handleValidProxy("socks5", proxy)\<close> whatever the
  configured protocol is. With the protocol \<open>https\<close> chosen at the prompt and one valid
  proxy, a complete run leaves \<open>results/https.valid.txt\<close> missing and the address in
  \<open>results/socks5.valid.txt\<close>. And \<open>main\<close> returns after \<open>close(results)\<close> without waiting for
  that goroutine: in the second execution the address was sent and no file was written.
\<close>

theorem valid_proxy_saved_under_socks5:
  "main_protocol demo_config ''1'' = ''https'' \<and>
   (\<exists>s. run demo_world demo_config ''https'' (init_pool [''10.0.0.1:80''] 2)
          [MainG, MainG, MainG,
           ProbeG 0, ProbeG 0, ProbeG 0, ProbeG 0, ProbeG 0, ProbeG 0, ProbeG 0,
           ExitG, MainG, MainG, MainG, ExitG, ExitG, MainG] = Some s \<and>
        mpc s = MExit \<and> \<not> crashed s \<and> sent_log s = [''10.0.0.1:80|12ms''] \<and> results s = [] \<and>
        files s ''results/https.valid.txt'' = None \<and>
        files s ''results/socks5.valid.txt'' = Some (''10.0.0.1:80'' @ [CHR 0x0A])) \<and>
   (\<exists>s. run demo_world demo_config ''https'' (init_pool [''10.0.0.1:80''] 2)
          [MainG, MainG, MainG,
           ProbeG 0, ProbeG 0, ProbeG 0, ProbeG 0, ProbeG 0,
           MainG, MainG, MainG, MainG] = Some s \<and>
        mpc s = MExit \<and> \<not> crashed s \<and> sent_log s = [''10.0.0.1:80|12ms''] \<and>
        results s = [''10.0.0.1:80|12ms''] \<and>
        files s ''results/https.valid.txt'' = None \<and>
        files s ''results/socks5.valid.txt'' = None)"
proof -
  have "strings_TrimSpace ''1'' = ''1''"
    by (simp add: strings_TrimSpace_def TrimLeft_def TrimRight_def asciiSpace_def)
  then have p: "main_protocol demo_config ''1'' = ''https''"
    by (simp add: main_protocol_def promptProtocol_def promptInput_def protocols_def)
  have a: "\<exists>s. run demo_world demo_config ''https'' (init_pool [''10.0.0.1:80''] 2)
          [MainG, MainG, MainG,
           ProbeG 0, ProbeG 0, ProbeG 0, ProbeG 0, ProbeG 0, ProbeG 0, ProbeG 0,
           ExitG, MainG, MainG, MainG, ExitG, ExitG, MainG] = Some s \<and>
        mpc s = MExit \<and> \<not> crashed s \<and> sent_log s = [''10.0.0.1:80|12ms''] \<and> results s = [] \<and>
        files s ''results/https.valid.txt'' = None \<and>
        files s ''results/socks5.valid.txt'' = Some (''10.0.0.1:80'' @ [CHR 0x0A])"
    by (simp add: pool_eval demo_cfg demo_verdict demo_open)
  have b: "\<exists>s. run demo_world demo_config ''https'' (init_pool [''10.0.0.1:80''] 2)
          [MainG, MainG, MainG,
           ProbeG 0, ProbeG 0, ProbeG 0, ProbeG 0, ProbeG 0,
           MainG, MainG, MainG, MainG] = Some s \<and>
        mpc s = MExit \<and> \<not> crashed s \<and> sent_log s = [''10.0.0.1:80|12ms''] \<and>
        results s = [''10.0.0.1:80|12ms''] \<and>
        files s ''results/https.valid.txt'' = None \<and>
        files s ''results/socks5.valid.txt'' = None"
    by (simp add: pool_eval demo_cfg demo_verdict demo_open)
  from p a b show ?thesis by blast
qed


end
